theory Spec2Isabelle
  imports Main "HOL-Library.AList" "HOL-Library.Char_ord"
begin

section \<open>Entity model (src/lib/types.ts)\<close>

text \<open>
  The three entities of \<^verbatim>\<open>types.ts\<close>. JavaScript numbers that hold timestamps and
  counters are integers; an optional field (\<^verbatim>\<open>sourceName?\<close>) is an \<open>option\<close>, where
  \<open>None\<close> stands for both \<^verbatim>\<open>undefined\<close> and the \<^verbatim>\<open>null\<close> a database column gives back.
  Field names that clash with Isabelle keywords or constants carry a prefix.
\<close>

record StudyItem =
  item_id :: string
  item_term :: string
  item_definition :: string
  options :: "string list option"
  correctAnswer :: "string option"

datatype SourceType = Pdf | Manual | AiGenerated

record StudySet =
  set_id :: string
  title :: string
  description :: string
  createdAt :: int
  updatedAt :: int
  items :: "StudyItem list"
  sourceType :: SourceType
  sourceName :: "string option"

record UserProgress =
  studySetId :: string
  mode :: string
  progress_updatedAt :: int
  itemsStudied :: int
  correctAnswers :: int
  incorrectAnswers :: int
  completedSessions :: int

section \<open>Learn mode (src/components/study-modes/learn/learn-view.tsx)\<close>

subsection \<open>JavaScript built-ins used by the component\<close>

text \<open>\<^verbatim>\<open>xs[i]\<close>: the element, or \<^verbatim>\<open>undefined\<close> (here \<open>None\<close>) out of range.\<close>

definition at :: "'a list \<Rightarrow> int \<Rightarrow> 'a option" where
  "at xs i = (if 0 \<le> i \<and> i < int (length xs) then Some (xs ! nat i) else None)"

text \<open>\<^verbatim>\<open>xs.findIndex(p)\<close>: the first index whose element satisfies \<open>p\<close>, or \<open>-1\<close>.\<close>

fun findIndex :: "('a \<Rightarrow> bool) \<Rightarrow> 'a list \<Rightarrow> int" where
  "findIndex p [] = -1"
| "findIndex p (x # xs) =
     (if p x then 0 else (let i = findIndex p xs in if i < 0 then -1 else i + 1))"

text \<open>
  Strings are lists of characters. \<^verbatim>\<open>toLowerCase\<close> and \<^verbatim>\<open>trim\<close> are given on the
  ASCII range: the letters A to Z, and the white space characters tab, line feed,
  vertical tab, form feed, carriage return and space.
\<close>

definition lower_char :: "char \<Rightarrow> char" where
  "lower_char c =
     (if CHR ''A'' \<le> c \<and> c \<le> CHR ''Z'' then char_of (of_char c + (32::nat)) else c)"

definition toLowerCase :: "string \<Rightarrow> string" where
  "toLowerCase s = map lower_char s"

definition is_space :: "char \<Rightarrow> bool" where
  "is_space c = (c \<in> set [CHR 0x09, CHR 0x0A, CHR 0x0B, CHR 0x0C, CHR 0x0D, CHR '' ''])"

definition trim :: "string \<Rightarrow> string" where
  "trim s = rev (dropWhile is_space (rev (dropWhile is_space s)))"

text \<open>\<^verbatim>\<open>s.substring(0, n)\<close> for a non-negative \<open>n\<close>.\<close>

definition substring0 :: "nat \<Rightarrow> string \<Rightarrow> string" where
  "substring0 n s = take n s"

text \<open>\<^verbatim>\<open>s.startsWith(p)\<close> and \<^verbatim>\<open>s.includes(p)\<close>.\<close>

definition startsWith :: "string \<Rightarrow> string \<Rightarrow> bool" where
  "startsWith s p = (take (length p) s = p)"

fun str_includes :: "string \<Rightarrow> string \<Rightarrow> bool" where
  "str_includes [] p = (p = [])"
| "str_includes (c # cs) p = (startsWith (c # cs) p \<or> str_includes cs p)"

subsection \<open>Component state\<close>

text \<open>
  \<^verbatim>\<open>LearnItem extends StudyItem\<close>. \<^verbatim>\<open>KnowledgeLevel\<close> is the type \<^verbatim>\<open>0 | 1 | 2 | 3 | 4\<close>,
  a number; the range is a typing invariant of the component, not a run-time check.
\<close>

record LearnItem = StudyItem +
  knowledgeLevel :: int
  nextReview :: int
  lastReviewed :: "int option"

datatype Stage = StageTerm | StageDefinition | StageQuiz

datatype Feedback = Correct | Incorrect

record LearnView =
  learn_items :: "LearnItem list"
  currentIndex :: int
  stage :: Stage
  userInput :: string
  feedback :: "Feedback option"
  isSessionComplete :: bool

text \<open>The initial state: every item at level 0, due at once, never reviewed.\<close>

definition toLearnItem :: "int \<Rightarrow> StudyItem \<Rightarrow> LearnItem" where
  "toLearnItem now item =
     StudyItem.extend item
       (LearnItem.fields 0 now None)"

definition initLearnView :: "int \<Rightarrow> StudySet \<Rightarrow> LearnView" where
  "initLearnView now studySet =
     \<lparr> learn_items = map (toLearnItem now) (items studySet), currentIndex = 0,
       stage = StageTerm, userInput = [], feedback = None, isSessionComplete = False \<rparr>"

subsection \<open>Next-item selection (the effect on \<^verbatim>\<open>[stage, items]\<close>)\<close>

text \<open>
  \<^verbatim>\<open>Array.prototype.sort\<close> with the comparator \<^verbatim>\<open>a.nextReview - b.nextReview\<close> is a stable
  sort on \<^verbatim>\<open>nextReview\<close>, as \<open>sort_key\<close> is. The call of \<^verbatim>\<open>saveProgress\<close> in the
  session-complete branch posts the counters over HTTP and changes no component state.
\<close>

definition selectNextItem :: "int \<Rightarrow> LearnView \<Rightarrow> LearnView" where
  "selectNextItem now st =
     (if stage st \<noteq> StageTerm then st
      else
        let dueItems = sort_key nextReview (filter (\<lambda>item. nextReview item \<le> now) (learn_items st))
        in if length dueItems > 0
           then st\<lparr>currentIndex :=
                  findIndex (\<lambda>item. item_id item = item_id (hd dueItems)) (learn_items st)\<rparr>
           else st\<lparr>isSessionComplete := True\<rparr>)"

subsection \<open>Knowledge update\<close>

definition intervals :: "int list" where
  "intervals =
     [1000 * 60,
      1000 * 60 * 60,
      1000 * 60 * 60 * 24,
      1000 * 60 * 60 * 24 * 3,
      1000 * 60 * 60 * 24 * 7]"

text \<open>
  \<^verbatim>\<open>updateItemKnowledge\<close>. The result is \<open>None\<close> where the source leaves the typed
  model: \<^verbatim>\<open>currentIndex\<close> outside the array (the spread of \<^verbatim>\<open>undefined\<close> gives an item
  without fields) or a level outside \<^verbatim>\<open>intervals\<close> (the sum is \<^verbatim>\<open>NaN\<close>).
\<close>

definition updateItemKnowledge :: "int \<Rightarrow> LearnView \<Rightarrow> LearnView option" where
  "updateItemKnowledge now st =
     (let isCorrect = (feedback st = Some Correct)
      in case at (learn_items st) (currentIndex st) of
           None \<Rightarrow> None
         | Some currentItem \<Rightarrow>
             let newLevel =
                   (if isCorrect then min 4 (knowledgeLevel currentItem + 1)
                    else max 0 (knowledgeLevel currentItem - 1))
             in case at intervals newLevel of
                  None \<Rightarrow> None
                | Some interval \<Rightarrow>
                    Some (st\<lparr>learn_items :=
                      list_update (learn_items st) (nat (currentIndex st))
                        (currentItem\<lparr>knowledgeLevel := newLevel,
                                       nextReview := now + interval,
                                       lastReviewed := Some now\<rparr>)\<rparr>))"

subsection \<open>Free-text grading\<close>

text \<open>
  \<^verbatim>\<open>checkAnswer\<close>. \<open>None\<close> is the \<^verbatim>\<open>TypeError\<close> of reading \<^verbatim>\<open>definition\<close> from
  \<^verbatim>\<open>undefined\<close> when \<^verbatim>\<open>currentIndex\<close> is outside the array.
\<close>

definition checkAnswer :: "LearnView \<Rightarrow> LearnView option" where
  "checkAnswer st =
     (case at (learn_items st) (currentIndex st) of
        None \<Rightarrow> None
      | Some item \<Rightarrow>
          let isCorrect =
                str_includes (trim (toLowerCase (userInput st)))
                  (substring0 20 (trim (toLowerCase (item_definition item))))
          in Some (st\<lparr>feedback := Some (if isCorrect then Correct else Incorrect)\<rparr>))"

subsection \<open>The spec's delay table, and sample states\<close>

text \<open>
  The delays as the spec words them: 1 minute, 1 hour, 1 day, 3 days and 7 days for the
  levels 0 to 4, in milliseconds.
\<close>

definition minute :: int where "minute = 60 * 1000"
definition hour :: int where "hour = 60 * minute"
definition day :: int where "day = 24 * hour"

definition spec_delay :: "int \<Rightarrow> int" where
  "spec_delay level =
     (if level = 0 then 1 * minute
      else if level = 1 then 1 * hour
      else if level = 2 then 1 * day
      else if level = 3 then 3 * day
      else 7 * day)"

definition sample_learn_item :: "string \<Rightarrow> string \<Rightarrow> int \<Rightarrow> int \<Rightarrow> LearnItem" where
  "sample_learn_item i d level due =
     \<lparr> item_id = i, item_term = ''term'', item_definition = d, options = None,
       correctAnswer = None, knowledgeLevel = level, nextReview = due, lastReviewed = None \<rparr>"

definition sample_view :: "LearnItem list \<Rightarrow> Stage \<Rightarrow> string \<Rightarrow> Feedback option \<Rightarrow> LearnView" where
  "sample_view its stg inp fb =
     \<lparr> learn_items = its, currentIndex = 0, stage = stg, userInput = inp,
       feedback = fb, isSessionComplete = False \<rparr>"

section \<open>Fallback store (createLocalStorageClient)\<close>

subsection \<open>Inputs\<close>

text \<open>
  \<^verbatim>\<open>Omit<StudySet, 'id' | 'createdAt' | 'updatedAt'>\<close>, the parameter of
  \<^verbatim>\<open>createStudySet\<close>, at its declared type: the spread \<^verbatim>\<open>{id, createdAt, updatedAt, ...data}\<close>
  then adds the five fields below to the fresh id and timestamps. An object with keys
  beyond these five (an \<^verbatim>\<open>id\<close> of its own, which the spread would put in place of the
  fresh one) is not a value of this type.
\<close>

record StudySetData =
  data_title :: string
  data_description :: string
  data_items :: "StudyItem list"
  data_sourceType :: SourceType
  data_sourceName :: "string option"

definition newStudySet :: "string \<Rightarrow> int \<Rightarrow> StudySetData \<Rightarrow> StudySet" where
  "newStudySet ident now data =
     \<lparr> set_id = ident, title = data_title data, description = data_description data,
       createdAt = now, updatedAt = now, items = data_items data,
       sourceType = data_sourceType data, sourceName = data_sourceName data \<rparr>"

text \<open>
  \<^verbatim>\<open>Partial<Omit<StudySet, 'id' | 'createdAt'>>\<close>, the parameter of \<^verbatim>\<open>updateStudySet\<close>:
  \<open>None\<close> is a key the payload does not have.
\<close>

record StudySetPatch =
  patch_title :: "string option"
  patch_description :: "string option"
  patch_updatedAt :: "int option"
  patch_items :: "StudyItem list option"
  patch_sourceType :: "SourceType option"
  patch_sourceName :: "string option"

text \<open>The spread \<^verbatim>\<open>{...existingSet, ...data}\<close>: a key of \<open>data\<close> replaces the existing one.\<close>

definition spreadPatch :: "StudySet \<Rightarrow> StudySetPatch \<Rightarrow> StudySet" where
  "spreadPatch existingSet data =
     existingSet
       \<lparr> title := (case patch_title data of Some t \<Rightarrow> t | None \<Rightarrow> title existingSet),
         description :=
           (case patch_description data of Some d \<Rightarrow> d | None \<Rightarrow> description existingSet),
         updatedAt := (case patch_updatedAt data of Some u \<Rightarrow> u | None \<Rightarrow> updatedAt existingSet),
         items := (case patch_items data of Some its \<Rightarrow> its | None \<Rightarrow> items existingSet),
         sourceType :=
           (case patch_sourceType data of Some s \<Rightarrow> s | None \<Rightarrow> sourceType existingSet),
         sourceName :=
           (case patch_sourceName data of Some n \<Rightarrow> Some n | None \<Rightarrow> sourceName existingSet) \<rparr>"

subsection \<open>State\<close>

text \<open>
  A value of the browser's \<^verbatim>\<open>localStorage\<close> is a string; the model keeps what
  \<^verbatim>\<open>JSON.parse\<close> makes of it. The three shapes are the ones this module writes with
  \<^verbatim>\<open>JSON.stringify\<close> (which \<^verbatim>\<open>JSON.parse\<close> inverts on these records of strings, integers
  and arrays); \<open>Unparsable\<close> is an empty string or a text on which \<^verbatim>\<open>JSON.parse\<close> throws.
  A value of another shape than the one its reader expects is skipped by the model's
  reader; the source would take it as it is, and the well-formed states below have no
  such value.
\<close>

datatype Stored =
    JStudySet StudySet
  | JIds "string list"
  | JProgress UserProgress
  | Unparsable

text \<open>
  \<open>studySets\<close>, \<open>studySetIds\<close> and \<open>progress\<close> are \<^verbatim>\<open>memoryStore\<close>; a \<^verbatim>\<open>Map\<close> is
  an association list (\<^verbatim>\<open>set\<close> replaces in place or appends, as \<open>AList.update\<close> does).
  \<open>localStorage\<close> is \<open>None\<close> outside a browser, where \<^verbatim>\<open>isClient()\<close> is false.
  \<open>quota\<close> belongs to the environment: for each coming call of \<^verbatim>\<open>localStorage.setItem\<close>
  it tells whether that call throws (the quota is exceeded); past its end no call throws.
  Console output of the fallback store is not part of the state.
\<close>

record LocalDb =
  studySets :: "(string \<times> StudySet) list"
  studySetIds :: "string list"
  progress :: "(string \<times> UserProgress) list"
  localStorage :: "(string \<times> Stored) list option"
  quota :: "bool list"

definition isClient :: "LocalDb \<Rightarrow> bool" where
  "isClient st = (localStorage st \<noteq> None)"

text \<open>
  \<^verbatim>\<open>localStorage.setItem\<close>: the flag is \<open>False\<close> when the call throws.
  \<^verbatim>\<open>localStorage.removeItem\<close> does not throw.
\<close>

definition setItem :: "string \<Rightarrow> Stored \<Rightarrow> LocalDb \<Rightarrow> bool \<times> LocalDb" where
  "setItem key v st =
     (case quota st of
        True # rest \<Rightarrow> (False, st\<lparr>quota := rest\<rparr>)
      | _ \<Rightarrow> (True, st\<lparr>localStorage := map_option (AList.update key v) (localStorage st),
                       quota := tl (quota st)\<rparr>))"

definition removeItem :: "string \<Rightarrow> LocalDb \<Rightarrow> LocalDb" where
  "removeItem key st = st\<lparr>localStorage := map_option (AList.delete key) (localStorage st)\<rparr>"

text \<open>\<^verbatim>\<open>if (!ids.includes(id)) ids.push(id)\<close>.\<close>

definition pushNew :: "string \<Rightarrow> string list \<Rightarrow> string list" where
  "pushNew ident ids = (if ident \<in> set ids then ids else ids @ [ident])"

subsection \<open>initializeFromLocalStorage\<close>

definition loadStudySet :: "(string \<times> Stored) list \<Rightarrow> string \<Rightarrow> LocalDb \<Rightarrow> LocalDb" where
  "loadStudySet ls key st =
     (case map_of ls key of
        Some (JStudySet studySet) \<Rightarrow>
          st\<lparr>studySets := AList.update (set_id studySet) studySet (studySets st),
             studySetIds := pushNew (set_id studySet) (studySetIds st)\<rparr>
      | _ \<Rightarrow> st)"

definition loadAllSetsIds :: "(string \<times> Stored) list \<Rightarrow> LocalDb \<Rightarrow> LocalDb" where
  "loadAllSetsIds ls st =
     (case map_of ls ''study-sets:all'' of
        Some (JIds allSetsIds) \<Rightarrow> st\<lparr>studySetIds := fold pushNew allSetsIds (studySetIds st)\<rparr>
      | _ \<Rightarrow> st)"

definition loadProgress :: "(string \<times> Stored) list \<Rightarrow> string \<Rightarrow> LocalDb \<Rightarrow> LocalDb" where
  "loadProgress ls key st =
     (case map_of ls key of
        Some (JProgress p) \<Rightarrow> st\<lparr>progress := AList.update key p (progress st)\<rparr>
      | _ \<Rightarrow> st)"

definition initializeFromLocalStorage :: "LocalDb \<Rightarrow> LocalDb" where
  "initializeFromLocalStorage st =
     (case localStorage st of
        None \<Rightarrow> st
      | Some ls \<Rightarrow>
          let studySetKeys = filter (\<lambda>key. startsWith key ''study-set:'') (map fst ls);
              st1 = fold (loadStudySet ls) studySetKeys st;
              st2 = loadAllSetsIds ls st1;
              progressKeys = filter (\<lambda>key. startsWith key ''progress:'') (map fst ls)
          in fold (loadProgress ls) progressKeys st2)"

subsection \<open>Operations\<close>

text \<open>
  \<^verbatim>\<open>nanoid()\<close> and \<^verbatim>\<open>Date.now()\<close> are the parameters \<open>ident\<close> and \<open>now\<close>. Every operation
  returns its result and the state it leaves. A \<^verbatim>\<open>try\<close> block around two \<^verbatim>\<open>setItem\<close> calls
  skips the second when the first throws.
\<close>

text \<open>The keys \<^verbatim>\<open>study-set:<id>\<close> and \<^verbatim>\<open>progress:<studySetId>:<mode>\<close>.\<close>

definition studySetKey :: "string \<Rightarrow> string" where
  "studySetKey ident = ''study-set:'' @ ident"

definition progressKey :: "string \<Rightarrow> string \<Rightarrow> string" where
  "progressKey sid m = ''progress:'' @ sid @ '':'' @ m"

definition createStudySet :: "string \<Rightarrow> int \<Rightarrow> StudySetData \<Rightarrow> LocalDb \<Rightarrow> StudySet \<times> LocalDb" where
  "createStudySet ident now data st =
     (let studySet = newStudySet ident now data;
          st1 = st\<lparr>studySets := AList.update ident studySet (studySets st),
                    studySetIds := pushNew ident (studySetIds st)\<rparr>
      in if isClient st1
         then (case setItem (studySetKey ident) (JStudySet studySet) st1 of
                 (False, st2) \<Rightarrow> (studySet, st2)
               | (True, st2) \<Rightarrow>
                   (studySet, snd (setItem ''study-sets:all'' (JIds (studySetIds st2)) st2)))
         else (studySet, st1))"

definition getStudySet :: "string \<Rightarrow> LocalDb \<Rightarrow> StudySet option \<times> LocalDb" where
  "getStudySet ident st0 =
     (let st = initializeFromLocalStorage st0
      in case map_of (studySets st) ident of
           Some studySet \<Rightarrow> (Some studySet, st)
         | None \<Rightarrow>
             (case localStorage st of
                None \<Rightarrow> (None, st)
              | Some ls \<Rightarrow>
                  (case map_of ls (studySetKey ident) of
                     Some (JStudySet studySet) \<Rightarrow>
                       (Some studySet, st\<lparr>studySets := AList.update ident studySet (studySets st)\<rparr>)
                   | _ \<Rightarrow> (None, st))))"

definition updateStudySet ::
  "string \<Rightarrow> int \<Rightarrow> StudySetPatch \<Rightarrow> LocalDb \<Rightarrow> StudySet option \<times> LocalDb" where
  "updateStudySet ident now data st0 =
     (case getStudySet ident (initializeFromLocalStorage st0) of
        (None, st) \<Rightarrow> (None, st)
      | (Some existingSet, st) \<Rightarrow>
          let updatedSet = (spreadPatch existingSet data)\<lparr>updatedAt := now\<rparr>;
              st1 = st\<lparr>studySets := AList.update ident updatedSet (studySets st)\<rparr>
          in if isClient st1
             then (Some updatedSet, snd (setItem (studySetKey ident) (JStudySet updatedSet) st1))
             else (Some updatedSet, st1))"

definition deleteStudySet :: "string \<Rightarrow> LocalDb \<Rightarrow> bool \<times> LocalDb" where
  "deleteStudySet ident st0 =
     (let st = initializeFromLocalStorage st0
      in if map_of (studySets st) ident = None then (False, st)
         else
           let st1 = st\<lparr>studySets := AList.delete ident (studySets st),
                        studySetIds := filter (\<lambda>setId. setId \<noteq> ident) (studySetIds st)\<rparr>
           in if isClient st1
              then (let st2 = removeItem (studySetKey ident) st1
                    in (True, snd (setItem ''study-sets:all'' (JIds (studySetIds st2)) st2)))
              else (True, st1))"

definition getAllStudySets :: "LocalDb \<Rightarrow> StudySet list \<times> LocalDb" where
  "getAllStudySets st0 =
     (let st = initializeFromLocalStorage st0 in (map snd (studySets st), st))"

text \<open>
  The parameter of \<^verbatim>\<open>saveUserProgress\<close> is a progress record without \<^verbatim>\<open>updatedAt\<close>; the
  spread \<^verbatim>\<open>{...progress, updatedAt: now}\<close> sets that field whatever the argument holds.
\<close>

definition saveUserProgress :: "int \<Rightarrow> UserProgress \<Rightarrow> LocalDb \<Rightarrow> UserProgress \<times> LocalDb" where
  "saveUserProgress now p st0 =
     (let st = initializeFromLocalStorage st0;
          userProgress = p\<lparr>progress_updatedAt := now\<rparr>;
          key = progressKey (studySetId p) (mode p);
          st1 = st\<lparr>progress := AList.update key userProgress (progress st)\<rparr>
      in if isClient st1
         then (userProgress, snd (setItem key (JProgress userProgress) st1))
         else (userProgress, st1))"

definition getUserProgress :: "string \<Rightarrow> string \<Rightarrow> LocalDb \<Rightarrow> UserProgress option \<times> LocalDb" where
  "getUserProgress sid m st0 =
     (let st = initializeFromLocalStorage st0;
          key = progressKey sid m
      in case map_of (progress st) key of
           Some p \<Rightarrow> (Some p, st)
         | None \<Rightarrow>
             (case localStorage st of
                None \<Rightarrow> (None, st)
              | Some ls \<Rightarrow>
                  (case map_of ls key of
                     Some (JProgress p) \<Rightarrow>
                       (Some p, st\<lparr>progress := AList.update key p (progress st)\<rparr>)
                   | _ \<Rightarrow> (None, st))))"

subsection \<open>Well-formed states\<close>

text \<open>
  The states the operations produce keep every study set under its own id, in the
  memory map and in \<^verbatim>\<open>localStorage\<close> under the key \<^verbatim>\<open>study-set:<id>\<close>, and they keep
  under a key \<^verbatim>\<open>study-set:...\<close> or \<^verbatim>\<open>progress:...\<close> a value of that key's shape (or a text
  that does not parse): there every reader of the source reads what the model reads.
\<close>

definition entry_ok :: "string \<Rightarrow> Stored \<Rightarrow> bool" where
  "entry_ok key v =
     ((startsWith key ''study-set:'' \<longrightarrow>
         (case v of JStudySet s \<Rightarrow> key = studySetKey (set_id s) | Unparsable \<Rightarrow> True
          | _ \<Rightarrow> False)) \<and>
      (startsWith key ''progress:'' \<longrightarrow>
         (case v of JProgress p \<Rightarrow> True | Unparsable \<Rightarrow> True | _ \<Rightarrow> False)))"

definition keyed_by_id :: "(string \<times> Stored) list \<Rightarrow> bool" where
  "keyed_by_id ls = list_all (\<lambda>(key, v). entry_ok key v) ls"

definition storage_keyed :: "LocalDb \<Rightarrow> bool" where
  "storage_keyed st = (case localStorage st of None \<Rightarrow> True | Some ls \<Rightarrow> keyed_by_id ls)"

definition wf_local :: "LocalDb \<Rightarrow> bool" where
  "wf_local st = (list_all (\<lambda>(k, s). set_id s = k) (studySets st) \<and> storage_keyed st)"

definition memory_keyed :: "LocalDb \<Rightarrow> bool" where
  "memory_keyed st = list_all (\<lambda>(k, s). set_id s = k) (studySets st)"

text \<open>
  What the two layers hold for a study set id and for a progress key: the parsable value
  in \<^verbatim>\<open>localStorage\<close> when there is one, the memory map's otherwise.
\<close>

definition storedSet :: "LocalDb \<Rightarrow> string \<Rightarrow> StudySet option" where
  "storedSet st ident =
     (case localStorage st of
        None \<Rightarrow> map_of (studySets st) ident
      | Some ls \<Rightarrow>
          (case map_of ls (studySetKey ident) of
             Some (JStudySet s) \<Rightarrow> Some s
           | _ \<Rightarrow> map_of (studySets st) ident))"

definition storedProgress :: "LocalDb \<Rightarrow> string \<Rightarrow> UserProgress option" where
  "storedProgress st key =
     (case localStorage st of
        None \<Rightarrow> map_of (progress st) key
      | Some ls \<Rightarrow>
          (case map_of ls key of
             Some (JProgress p) \<Rightarrow> Some p
           | _ \<Rightarrow> map_of (progress st) key))"

definition emptyLocalDb :: "bool \<Rightarrow> LocalDb" where
  "emptyLocalDb client =
     \<lparr> studySets = [], studySetIds = [], progress = [],
       localStorage = (if client then Some [] else None), quota = [] \<rparr>"

section \<open>Database backend (src/lib/db.ts over the schema of src/lib/neon-db.ts)\<close>

subsection \<open>Tables\<close>

text \<open>
  The three tables of \<^verbatim>\<open>setupDatabase\<close>. A table is the list of its rows in insertion
  order. A row of \<^verbatim>\<open>study_items\<close> is a study item with the column \<^verbatim>\<open>study_set_id\<close>; a row
  of \<^verbatim>\<open>user_progress\<close> has the fields of \<open>UserProgress\<close> (its serial \<^verbatim>\<open>id\<close> is never read).
\<close>

record StudySetRow =
  row_id :: string
  row_title :: string
  row_description :: string
  created_at :: int
  updated_at :: int
  source_type :: SourceType
  source_name :: "string option"

record StudyItemRow = StudyItem +
  study_set_id :: string

datatype DbError =
    ConnectionError
  | UniqueViolation
  | ForeignKeyViolation
  | NumericValueOutOfRange

text \<open>
  \<open>faults\<close> and \<open>row_order\<close> belong to the environment. \<open>faults\<close> tells for each
  coming call of \<^verbatim>\<open>query\<close> whether it throws before reaching the tables (no connection);
  past its end no call does. \<open>row_order\<close> is the order in which the engine returns the
  rows of \<^verbatim>\<open>SELECT * FROM study_items WHERE study_set_id = $1\<close>, a statement without
  \<^verbatim>\<open>ORDER BY\<close> on a table without a position column, applied to the matching rows in
  insertion order. \<open>console\<close> collects the messages of \<^verbatim>\<open>console.error\<close>.
  \<open>thrown\<close> counts the calls of \<^verbatim>\<open>query\<close> that threw; no operation reads it, the
  statements about failures do.
\<close>

record Database =
  study_sets :: "StudySetRow list"
  study_items :: "StudyItemRow list"
  user_progress :: "UserProgress list"
  faults :: "bool list"
  row_order :: "StudyItemRow list \<Rightarrow> StudyItemRow list"
  console :: "string list"
  thrown :: nat

definition consoleError :: "string \<Rightarrow> Database \<Rightarrow> Database" where
  "consoleError msg db = db\<lparr>console := console db @ [msg]\<rparr>"

subsection \<open>The statements\<close>

text \<open>
  Each SQL text of \<^verbatim>\<open>db.ts\<close> with its parameters, as a function on the tables that
  returns the rows or the row count. The constraints are the schema's: primary keys
  \<^verbatim>\<open>study_sets.id\<close> and \<^verbatim>\<open>study_items.id\<close>, \<^verbatim>\<open>UNIQUE(study_set_id, mode)\<close> on
  \<^verbatim>\<open>user_progress\<close>, foreign keys from \<^verbatim>\<open>study_items\<close> and \<^verbatim>\<open>user_progress\<close> to
  \<^verbatim>\<open>study_sets(id)\<close> with \<^verbatim>\<open>ON DELETE CASCADE\<close>, and the four \<^verbatim>\<open>INTEGER\<close> counters.
\<close>

definition int4 :: "int \<Rightarrow> bool" where
  "int4 n = (- 2147483648 \<le> n \<and> n \<le> 2147483647)"

definition counters_int4 :: "UserProgress \<Rightarrow> bool" where
  "counters_int4 p =
     (int4 (itemsStudied p) \<and> int4 (correctAnswers p) \<and>
      int4 (incorrectAnswers p) \<and> int4 (completedSessions p))"

definition insert_study_set :: "StudySetRow \<Rightarrow> Database \<Rightarrow> DbError + (unit \<times> Database)" where
  "insert_study_set row db =
     (if row_id row \<in> set (map row_id (study_sets db)) then Inl UniqueViolation
      else Inr ((), db\<lparr>study_sets := study_sets db @ [row]\<rparr>))"

definition insert_study_item :: "StudyItemRow \<Rightarrow> Database \<Rightarrow> DbError + (unit \<times> Database)" where
  "insert_study_item row db =
     (if item_id row \<in> set (map item_id (study_items db)) then Inl UniqueViolation
      else if study_set_id row \<notin> set (map row_id (study_sets db)) then Inl ForeignKeyViolation
      else Inr ((), db\<lparr>study_items := study_items db @ [row]\<rparr>))"

definition select_study_set :: "string \<Rightarrow> Database \<Rightarrow> DbError + (StudySetRow list \<times> Database)" where
  "select_study_set ident db = Inr (filter (\<lambda>r. row_id r = ident) (study_sets db), db)"

definition select_study_items ::
  "string \<Rightarrow> Database \<Rightarrow> DbError + (StudyItemRow list \<times> Database)" where
  "select_study_items ident db =
     Inr (row_order db (filter (\<lambda>r. study_set_id r = ident) (study_items db)), db)"

definition update_study_set ::
  "string \<Rightarrow> string \<Rightarrow> int \<Rightarrow> SourceType \<Rightarrow> string option \<Rightarrow> string \<Rightarrow> Database
     \<Rightarrow> DbError + (nat \<times> Database)" where
  "update_study_set t d now st sn ident db =
     Inr (length (filter (\<lambda>r. row_id r = ident) (study_sets db)),
          db\<lparr>study_sets :=
               map (\<lambda>r. if row_id r = ident
                         then r\<lparr>row_title := t, row_description := d, updated_at := now,
                                 source_type := st, source_name := sn\<rparr>
                         else r) (study_sets db)\<rparr>)"

definition delete_study_items :: "string \<Rightarrow> Database \<Rightarrow> DbError + (nat \<times> Database)" where
  "delete_study_items ident db =
     Inr (length (filter (\<lambda>r. study_set_id r = ident) (study_items db)),
          db\<lparr>study_items := filter (\<lambda>r. study_set_id r \<noteq> ident) (study_items db)\<rparr>)"

text \<open>The cascade removes the rows of both referencing tables.\<close>

definition delete_study_set :: "string \<Rightarrow> Database \<Rightarrow> DbError + (nat \<times> Database)" where
  "delete_study_set ident db =
     Inr (length (filter (\<lambda>r. row_id r = ident) (study_sets db)),
          db\<lparr>study_sets := filter (\<lambda>r. row_id r \<noteq> ident) (study_sets db),
              study_items := filter (\<lambda>r. study_set_id r \<noteq> ident) (study_items db),
              user_progress := filter (\<lambda>r. studySetId r \<noteq> ident) (user_progress db)\<rparr>)"

definition select_all_study_sets :: "Database \<Rightarrow> DbError + (StudySetRow list \<times> Database)" where
  "select_all_study_sets db = Inr (rev (sort_key updated_at (study_sets db)), db)"

definition update_progress :: "UserProgress \<Rightarrow> Database \<Rightarrow> DbError + (nat \<times> Database)" where
  "update_progress p db =
     (if \<not> counters_int4 p then Inl NumericValueOutOfRange
      else
        Inr (length (filter (\<lambda>r. studySetId r = studySetId p \<and> mode r = mode p)
                       (user_progress db)),
             db\<lparr>user_progress :=
                  map (\<lambda>r. if studySetId r = studySetId p \<and> mode r = mode p
                            then r\<lparr>progress_updatedAt := progress_updatedAt p,
                                    itemsStudied := itemsStudied p,
                                    correctAnswers := correctAnswers p,
                                    incorrectAnswers := incorrectAnswers p,
                                    completedSessions := completedSessions p\<rparr>
                            else r) (user_progress db)\<rparr>))"

definition insert_progress :: "UserProgress \<Rightarrow> Database \<Rightarrow> DbError + (unit \<times> Database)" where
  "insert_progress p db =
     (if \<not> counters_int4 p then Inl NumericValueOutOfRange
      else if \<exists>r\<in>set (user_progress db). studySetId r = studySetId p \<and> mode r = mode p
      then Inl UniqueViolation
      else if studySetId p \<notin> set (map row_id (study_sets db)) then Inl ForeignKeyViolation
      else Inr ((), db\<lparr>user_progress := user_progress db @ [p]\<rparr>))"

definition select_progress ::
  "string \<Rightarrow> string \<Rightarrow> Database \<Rightarrow> DbError + (UserProgress list \<times> Database)" where
  "select_progress sid m db =
     Inr (filter (\<lambda>r. studySetId r = sid \<and> mode r = m) (user_progress db), db)"

text \<open>
  \<^verbatim>\<open>query\<close> of \<^verbatim>\<open>neon-db.ts\<close>: it throws when the connection fails, or when the
  statement does; otherwise it returns the statement's result.
\<close>

definition query ::
  "(Database \<Rightarrow> DbError + ('r \<times> Database)) \<Rightarrow> Database \<Rightarrow> (DbError + 'r) \<times> Database" where
  "query stmt db =
     (case faults db of
        True # rest \<Rightarrow> (Inl ConnectionError, db\<lparr>faults := rest, thrown := thrown db + 1\<rparr>)
      | _ \<Rightarrow>
          (let db1 = db\<lparr>faults := tl (faults db)\<rparr>
           in case stmt db1 of
                Inl e \<Rightarrow> (Inl e, db1\<lparr>thrown := thrown db + 1\<rparr>)
              | Inr (r, db2) \<Rightarrow> (Inr r, db2)))"

text \<open>The next call of \<^verbatim>\<open>query\<close> throws for want of a connection.\<close>

definition query_fails :: "Database \<Rightarrow> bool" where
  "query_fails db = (case faults db of True # rest \<Rightarrow> True | _ \<Rightarrow> False)"

subsection \<open>Conversions\<close>

text \<open>\<^verbatim>\<open>v || null\<close> on an optional string: the empty string is falsy.\<close>

definition orNull :: "string option \<Rightarrow> string option" where
  "orNull v = (case v of Some [] \<Rightarrow> None | _ \<Rightarrow> v)"

text \<open>
  The parameter lists of the two \<^verbatim>\<open>INSERT\<close> statements. \<^verbatim>\<open>description || ''\<close> is the
  description itself; \<^verbatim>\<open>options || null\<close> keeps every array, the empty one too.
\<close>

definition toStudySetRow :: "string \<Rightarrow> StudySet \<Rightarrow> StudySetRow" where
  "toStudySetRow ident studySet =
     \<lparr> row_id = ident, row_title = title studySet, row_description = description studySet,
       created_at = createdAt studySet, updated_at = updatedAt studySet,
       source_type = sourceType studySet, source_name = orNull (sourceName studySet) \<rparr>"

definition toStudyItemRow :: "string \<Rightarrow> StudyItem \<Rightarrow> StudyItemRow" where
  "toStudyItemRow ident item =
     \<lparr> item_id = item_id item, item_term = item_term item,
       item_definition = item_definition item, options = options item,
       correctAnswer = orNull (correctAnswer item), study_set_id = ident \<rparr>"

text \<open>The object literals that \<^verbatim>\<open>getStudySetDb\<close> builds from the rows.\<close>

definition rowItem :: "StudyItemRow \<Rightarrow> StudyItem" where
  "rowItem row =
     \<lparr> item_id = item_id row, item_term = item_term row,
       item_definition = item_definition row, options = options row,
       correctAnswer = correctAnswer row \<rparr>"

definition rowStudySet :: "StudySetRow \<Rightarrow> StudyItemRow list \<Rightarrow> StudySet" where
  "rowStudySet studySetRow itemRows =
     \<lparr> set_id = row_id studySetRow, title = row_title studySetRow,
       description = row_description studySetRow, createdAt = created_at studySetRow,
       updatedAt = updated_at studySetRow, items = map rowItem itemRows,
       sourceType = source_type studySetRow, sourceName = source_name studySetRow \<rparr>"

subsection \<open>Operations\<close>

text \<open>
  Every operation returns \<open>Inr\<close> its value or \<open>Inl\<close> the error it throws, and the
  database it leaves. \<open>insertItems\<close> is the \<^verbatim>\<open>for\<close> loop over the items.
\<close>

fun insertItems :: "string \<Rightarrow> StudyItem list \<Rightarrow> Database \<Rightarrow> (DbError + unit) \<times> Database" where
  "insertItems ident [] db = (Inr (), db)"
| "insertItems ident (item # rest) db =
     (case query (insert_study_item (toStudyItemRow ident item)) db of
        (Inl e, db1) \<Rightarrow> (Inl e, db1)
      | (Inr _, db1) \<Rightarrow> insertItems ident rest db1)"

definition createStudySetDb ::
  "string \<Rightarrow> int \<Rightarrow> StudySetData \<Rightarrow> Database \<Rightarrow> (DbError + StudySet) \<times> Database" where
  "createStudySetDb ident now data db =
     (let studySet = newStudySet ident now data
      in case query (insert_study_set (toStudySetRow ident studySet)) db of
           (Inl e, db1) \<Rightarrow> (Inl e, consoleError ''Error creating study set:'' db1)
         | (Inr _, db1) \<Rightarrow>
             (case insertItems ident (items studySet) db1 of
                (Inl e, db2) \<Rightarrow> (Inl e, consoleError ''Error creating study set:'' db2)
              | (Inr _, db2) \<Rightarrow> (Inr studySet, db2)))"

definition getStudySetDb ::
  "string \<Rightarrow> Database \<Rightarrow> (DbError + StudySet option) \<times> Database" where
  "getStudySetDb ident db =
     (case query (select_study_set ident) db of
        (Inl e, db1) \<Rightarrow> (Inr None, consoleError ''Error getting study set:'' db1)
      | (Inr studySetRows, db1) \<Rightarrow>
          if length studySetRows = 0 then (Inr None, db1)
          else
            (case query (select_study_items ident) db1 of
               (Inl e, db2) \<Rightarrow> (Inr None, consoleError ''Error getting study set:'' db2)
             | (Inr itemRows, db2) \<Rightarrow>
                 (Inr (Some (rowStudySet (hd studySetRows) itemRows)), db2)))"

text \<open>
  \<^verbatim>\<open>updateStudySetDb\<close> reads through the exported \<^verbatim>\<open>getStudySet\<close>, which is
  \<^verbatim>\<open>getStudySetDb\<close> whenever this backend is the one in use. \<^verbatim>\<open>a || b\<close> takes \<open>b\<close> for
  a missing or empty \<open>a\<close>, \<^verbatim>\<open>a ?? b\<close> for a missing one; \<^verbatim>\<open>if (data.items)\<close> holds for
  every array.
\<close>

definition updateStudySetDb ::
  "string \<Rightarrow> int \<Rightarrow> StudySetPatch \<Rightarrow> Database \<Rightarrow> (DbError + StudySet option) \<times> Database" where
  "updateStudySetDb ident now data db =
     (case getStudySetDb ident db of
        (Inl e, db1) \<Rightarrow> (Inr None, consoleError ''Error updating study set:'' db1)
      | (Inr None, db1) \<Rightarrow> (Inr None, db1)
      | (Inr (Some existingStudySet), db1) \<Rightarrow>
          (case query
                  (update_study_set
                     (case patch_title data of
                        Some t \<Rightarrow> if t = [] then title existingStudySet else t
                      | None \<Rightarrow> title existingStudySet)
                     (case patch_description data of
                        Some d \<Rightarrow> d
                      | None \<Rightarrow> description existingStudySet)
                     now
                     (case patch_sourceType data of
                        Some s \<Rightarrow> s
                      | None \<Rightarrow> sourceType existingStudySet)
                     (case patch_sourceName data of
                        Some n \<Rightarrow> Some n
                      | None \<Rightarrow> sourceName existingStudySet)
                     ident) db1 of
             (Inl e, db2) \<Rightarrow> (Inr None, consoleError ''Error updating study set:'' db2)
           | (Inr _, db2) \<Rightarrow>
               (case patch_items data of
                  None \<Rightarrow> getStudySetDb ident db2
                | Some newItems \<Rightarrow>
                    (case query (delete_study_items ident) db2 of
                       (Inl e, db3) \<Rightarrow>
                         (Inr None, consoleError ''Error updating study set:'' db3)
                     | (Inr _, db3) \<Rightarrow>
                         (case insertItems ident newItems db3 of
                            (Inl e, db4) \<Rightarrow>
                              (Inr None, consoleError ''Error updating study set:'' db4)
                          | (Inr _, db4) \<Rightarrow> getStudySetDb ident db4)))))"

definition deleteStudySetDb :: "string \<Rightarrow> Database \<Rightarrow> (DbError + bool) \<times> Database" where
  "deleteStudySetDb ident db =
     (case query (delete_study_set ident) db of
        (Inl e, db1) \<Rightarrow> (Inr False, consoleError ''Error deleting study set:'' db1)
      | (Inr rowCount, db1) \<Rightarrow> (Inr (rowCount > 0), db1))"

text \<open>
  \<^verbatim>\<open>getAllStudySetsDb\<close>: the item queries of \<^verbatim>\<open>Promise.all\<close> are issued in the order of
  the rows; one that throws makes the whole call return the empty list.
\<close>

fun selectAllItems ::
  "StudySetRow list \<Rightarrow> Database \<Rightarrow> (DbError + StudySet list) \<times> Database" where
  "selectAllItems [] db = (Inr [], db)"
| "selectAllItems (row # rest) db =
     (case query (select_study_items (row_id row)) db of
        (Inl e, db1) \<Rightarrow> (Inl e, db1)
      | (Inr itemRows, db1) \<Rightarrow>
          (case selectAllItems rest db1 of
             (Inl e, db2) \<Rightarrow> (Inl e, db2)
           | (Inr sets, db2) \<Rightarrow> (Inr (rowStudySet row itemRows # sets), db2)))"

definition getAllStudySetsDb :: "Database \<Rightarrow> (DbError + StudySet list) \<times> Database" where
  "getAllStudySetsDb db =
     (case query select_all_study_sets db of
        (Inl e, db1) \<Rightarrow> (Inr [], consoleError ''Error getting all study sets:'' db1)
      | (Inr studySetRows, db1) \<Rightarrow>
          (case selectAllItems studySetRows db1 of
             (Inl e, db2) \<Rightarrow> (Inr [], consoleError ''Error getting all study sets:'' db2)
           | (Inr allSets, db2) \<Rightarrow> (Inr allSets, db2)))"

definition saveUserProgressDb ::
  "int \<Rightarrow> UserProgress \<Rightarrow> Database \<Rightarrow> (DbError + UserProgress) \<times> Database" where
  "saveUserProgressDb now p db =
     (let userProgress = p\<lparr>progress_updatedAt := now\<rparr>
      in case query (update_progress userProgress) db of
           (Inl e, db1) \<Rightarrow> (Inr userProgress, consoleError ''Error saving user progress:'' db1)
         | (Inr rowCount, db1) \<Rightarrow>
             if rowCount = 0
             then (case query (insert_progress userProgress) db1 of
                     (Inl e, db2) \<Rightarrow>
                       (Inr userProgress, consoleError ''Error saving user progress:'' db2)
                   | (Inr _, db2) \<Rightarrow> (Inr userProgress, db2))
             else (Inr userProgress, db1))"

definition getUserProgressDb ::
  "string \<Rightarrow> string \<Rightarrow> Database \<Rightarrow> (DbError + UserProgress option) \<times> Database" where
  "getUserProgressDb sid m db =
     (case query (select_progress sid m) db of
        (Inl e, db1) \<Rightarrow> (Inr None, consoleError ''Error getting user progress:'' db1)
      | (Inr rows, db1) \<Rightarrow>
          if length rows = 0 then (Inr None, db1) else (Inr (Some (hd rows)), db1))"

subsection \<open>Databases that satisfy the schema's constraints\<close>

definition db_ok :: "Database \<Rightarrow> bool" where
  "db_ok db =
     (distinct (map row_id (study_sets db)) \<and>
      distinct (map item_id (study_items db)) \<and>
      distinct (map (\<lambda>r. (studySetId r, mode r)) (user_progress db)) \<and>
      (\<forall>r\<in>set (study_items db). study_set_id r \<in> set (map row_id (study_sets db))) \<and>
      (\<forall>r\<in>set (user_progress db). studySetId r \<in> set (map row_id (study_sets db))))"

text \<open>
  An id and items that the tables do not hold yet, the items' ids pairwise different:
  what \<^verbatim>\<open>nanoid()\<close> gives for the set and for every item.
\<close>

definition fresh_for :: "string \<Rightarrow> StudySetData \<Rightarrow> Database \<Rightarrow> bool" where
  "fresh_for ident d db =
     (ident \<notin> set (map row_id (study_sets db)) \<and>
      distinct (map item_id (data_items d)) \<and>
      set (map item_id (data_items d)) \<inter> set (map item_id (study_items db)) = {})"

text \<open>
  What an operation leaves when its first call of \<^verbatim>\<open>query\<close> throws: one entry of
  \<open>faults\<close> is used and one call has thrown (the call is not made again), the message
  is on the console, and the tables are as they were.
\<close>

definition failed_with :: "string \<Rightarrow> Database \<Rightarrow> Database \<Rightarrow> bool" where
  "failed_with msg db db' =
     (db' = db\<lparr>faults := tl (faults db), console := console db @ [msg],
                thrown := thrown db + 1\<rparr>)"

text \<open>
  How an operation ends, in general, read off the ghost counter \<open>thrown\<close> and the
  console. \<open>ran_clean\<close>: no call of \<^verbatim>\<open>query\<close> threw and nothing was logged.
  \<open>failed_once\<close>: exactly one call threw and exactly one message was logged.
\<close>

definition ran_clean :: "Database \<Rightarrow> Database \<Rightarrow> bool" where
  "ran_clean db db' = (thrown db' = thrown db \<and> console db' = console db)"

definition failed_once :: "Database \<Rightarrow> Database \<Rightarrow> bool" where
  "failed_once db db' =
     (thrown db' = thrown db + 1 \<and> length (console db') = length (console db) + 1)"

text \<open>
  A statement that touches the tables only. A run of calls of \<^verbatim>\<open>query\<close> outside a
  \<^verbatim>\<open>catch\<close> (one call, \<open>insertItems\<close>, \<open>selectAllItems\<close>): it returns and no call threw,
  or it throws at the first call that throws, and nothing is logged either way.
\<close>

definition pure_stmt :: "(Database \<Rightarrow> DbError + ('r \<times> Database)) \<Rightarrow> bool" where
  "pure_stmt stmt =
     (\<forall>d r d'. stmt d = Inr (r, d') \<longrightarrow> thrown d' = thrown d \<and> console d' = console d)"

definition uncaught :: "Database \<Rightarrow> (DbError + 'r) \<times> Database \<Rightarrow> bool" where
  "uncaught db out =
     (case fst out of
        Inr v \<Rightarrow> ran_clean db (snd out)
      | Inl e \<Rightarrow> thrown (snd out) = thrown db + 1 \<and> console (snd out) = console db)"

text \<open>
  An operation that catches: it returns a value whatever happens; no call threw and
  nothing was logged, or one call threw, one message was logged and the value is the
  default \<open>dflt\<close>. An operation that logs and throws again (\<open>createStudySetDb\<close>): it
  returns and no call threw, or it throws, after one call threw and one message was
  logged.
\<close>

definition handled :: "Database \<Rightarrow> (DbError + 'a) \<times> Database \<Rightarrow> 'a \<Rightarrow> bool" where
  "handled db out dflt =
     ((\<exists>v. fst out = Inr v) \<and>
      (ran_clean db (snd out) \<or> failed_once db (snd out) \<and> fst out = Inr dflt))"

definition rethrown :: "Database \<Rightarrow> (DbError + 'a) \<times> Database \<Rightarrow> bool" where
  "rethrown db out =
     ((\<exists>v. fst out = Inr v) \<and> ran_clean db (snd out) \<or>
      (\<exists>e. fst out = Inl e) \<and> failed_once db (snd out))"

definition emptyDatabase :: "bool list \<Rightarrow> (StudyItemRow list \<Rightarrow> StudyItemRow list) \<Rightarrow> Database" where
  "emptyDatabase fs ord =
     \<lparr> study_sets = [], study_items = [], user_progress = [], faults = fs, row_order = ord,
       console = [], thrown = 0 \<rparr>"

section \<open>Sample data\<close>

definition sampleItem :: "string \<Rightarrow> string \<Rightarrow> string \<Rightarrow> StudyItem" where
  "sampleItem i t d =
     \<lparr> item_id = i, item_term = t, item_definition = d, options = None, correctAnswer = None \<rparr>"

definition sampleData :: "string option \<Rightarrow> StudySetData" where
  "sampleData src =
     \<lparr> data_title = ''Biology Terms'', data_description = ''Common biology terminology'',
       data_items = [sampleItem ''i1'' ''DNA'' ''Deoxyribonucleic acid'',
                     sampleItem ''i2'' ''Cell'' ''The basic unit of all organisms''],
       data_sourceType = Manual, data_sourceName = src \<rparr>"

definition samplePatch :: "StudyItem list option \<Rightarrow> StudySetPatch" where
  "samplePatch its =
     \<lparr> patch_title = Some ''Biology'', patch_description = None, patch_updatedAt = None,
       patch_items = its, patch_sourceType = None, patch_sourceName = None \<rparr>"

definition sampleProgress :: "int \<Rightarrow> int \<Rightarrow> UserProgress" where
  "sampleProgress studied correct =
     \<lparr> studySetId = ''s1'', mode = ''learn'', progress_updatedAt = 0, itemsStudied = studied,
       correctAnswers = correct, incorrectAnswers = studied - correct, completedSessions = 1 \<rparr>"

text \<open>A browser store and a database after one \<^verbatim>\<open>createStudySet\<close>.\<close>

definition sampleLocalDb :: LocalDb where
  "sampleLocalDb = snd (createStudySet ''s1'' 10 (sampleData None) (emptyLocalDb True))"

definition sampleLocalDb2 :: LocalDb where
  "sampleLocalDb2 =
     snd (saveUserProgress 20 (sampleProgress 2 1)
            (snd (createStudySet ''s2'' 11 (sampleData (Some ''notes.pdf'')) sampleLocalDb)))"

definition sampleDatabase ::
  "bool list \<Rightarrow> (StudyItemRow list \<Rightarrow> StudyItemRow list) \<Rightarrow> Database" where
  "sampleDatabase fs ord =
     (snd (createStudySetDb ''s1'' 10 (sampleData None) (emptyDatabase [] ord)))\<lparr>faults := fs\<rparr>"

section \<open>Properties of Learn mode\<close>

subsection \<open>Built-ins\<close>

lemma str_includes_iff: "str_includes s p \<longleftrightarrow> (\<exists>pre post. s = pre @ p @ post)"
proof (induction s)
  case Nil
  then show ?case by auto
next
  case (Cons c cs)
  have sw: "startsWith (c # cs) p \<longleftrightarrow> (\<exists>post. c # cs = p @ post)"
    unfolding startsWith_def by (metis append_eq_conv_conj append_take_drop_id)
  show ?case
  proof
    assume "str_includes (c # cs) p"
    then consider "startsWith (c # cs) p" | "str_includes cs p" by auto
    then show "\<exists>pre post. c # cs = pre @ p @ post"
    proof cases
      case 1
      then obtain post where "c # cs = p @ post" using sw by blast
      then have "c # cs = [] @ p @ post" by simp
      then show ?thesis by blast
    next
      case 2
      then obtain pre post where "cs = pre @ p @ post" using Cons.IH by blast
      then have "c # cs = (c # pre) @ p @ post" by simp
      then show ?thesis by blast
    qed
  next
    assume "\<exists>pre post. c # cs = pre @ p @ post"
    then obtain pre post where e: "c # cs = pre @ p @ post" by blast
    show "str_includes (c # cs) p"
    proof (cases pre)
      case Nil
      then have "startsWith (c # cs) p" using e sw by auto
      then show ?thesis by simp
    next
      case (Cons a pre')
      then have "cs = pre' @ p @ post" using e by simp
      then show ?thesis using Cons.IH by auto
    qed
  qed
qed

lemma str_includes_take: "str_includes s (take n s)"
proof -
  have "s = [] @ take n s @ drop n s" by simp
  then show ?thesis unfolding str_includes_iff by blast
qed

lemma findIndex_found:
  "x \<in> set xs \<Longrightarrow> p x \<Longrightarrow>
     0 \<le> findIndex p xs \<and> findIndex p xs < int (length xs) \<and> p (xs ! nat (findIndex p xs))"
proof (induction xs)
  case Nil
  then show ?case by simp
next
  case (Cons a xs)
  show ?case
  proof (cases "p a")
    case True
    then show ?thesis by simp
  next
    case False
    then have "x \<in> set xs" using Cons.prems by auto
    then have "0 \<le> findIndex p xs \<and> findIndex p xs < int (length xs) \<and>
               p (xs ! nat (findIndex p xs))"
      using Cons.IH Cons.prems by blast
    then show ?thesis using False by (simp add: Let_def nat_add_distrib)
  qed
qed

lemma at_list_update:
  "at xs i = Some x \<Longrightarrow> at (list_update xs (nat i) y) i = Some y"
  by (auto simp: at_def split: if_splits)

lemma at_intervals:
  "0 \<le> l \<Longrightarrow> l \<le> 4 \<Longrightarrow> at intervals l = Some (spec_delay l)"
proof -
  assume "0 \<le> l" "l \<le> 4"
  then have "l = 0 \<or> l = 1 \<or> l = 2 \<or> l = 3 \<or> l = 4" by arith
  then show ?thesis
    by (auto simp: at_def intervals_def spec_delay_def minute_def hour_def day_def)
qed

lemma sort_key_nonempty: "xs \<noteq> [] \<Longrightarrow> sort_key f xs \<noteq> []"
  by (metis length_sort length_0_conv)

lemma hd_sort_key_least:
  assumes "xs \<noteq> []"
  shows "hd (sort_key f xs) \<in> set xs \<and> (\<forall>y\<in>set xs. f (hd (sort_key f xs)) \<le> f y)"
proof -
  obtain z zs where s: "sort_key f xs = z # zs"
    using sort_key_nonempty [OF assms, of f] by (cases "sort_key f xs") auto
  have "sorted (map f (sort_key f xs))" by (rule sorted_sort_key)
  then have tl: "\<forall>y\<in>set zs. f z \<le> f y" using s by simp
  have eq: "set xs = set (z # zs)" using s by (metis set_sort)
  have "z \<in> set xs" using eq by simp
  moreover have "\<forall>y\<in>set xs. f z \<le> f y" using eq tl by auto
  ultimately show ?thesis using s by simp
qed

lemma distinct_ids_eq:
  assumes "distinct (map f xs)" "x \<in> set xs" "y \<in> set xs" "f x = f y"
  shows "x = y"
  using assms by (meson distinct_map inj_on_def)

subsection \<open>Knowledge transition\<close>

text \<open>
  Claim C1. A recall attempt at time \<open>now\<close> on the current item, whose level lies in
  0..4: when the feedback is "correct" the level becomes \<open>min (level + 1) 4\<close>, otherwise
  \<open>max (level - 1) 0\<close>; \<open>nextReview\<close> becomes \<open>now\<close> plus the delay of the new level
  (1 minute, 1 hour, 1 day, 3 days, 7 days); \<open>lastReviewed\<close> becomes \<open>now\<close>.
\<close>

theorem updateItemKnowledge_transition:
  assumes cur: "at (learn_items st) (currentIndex st) = Some item"
      and lo: "0 \<le> knowledgeLevel item" and hi: "knowledgeLevel item \<le> 4"
  shows "\<exists>st' item'.
           updateItemKnowledge now st = Some st' \<and>
           at (learn_items st') (currentIndex st) = Some item' \<and>
           knowledgeLevel item' =
             (if feedback st = Some Correct then min (knowledgeLevel item + 1) 4
              else max (knowledgeLevel item - 1) 0) \<and>
           nextReview item' = now + spec_delay (knowledgeLevel item') \<and>
           lastReviewed item' = Some now"
proof -
  define newLevel where
    "newLevel = (if feedback st = Some Correct then min 4 (knowledgeLevel item + 1)
                 else max 0 (knowledgeLevel item - 1))"
  have range: "0 \<le> newLevel" "newLevel \<le> 4"
    using lo hi by (auto simp: newLevel_def)
  have iv: "at intervals newLevel = Some (spec_delay newLevel)"
    using range by (rule at_intervals)
  define item' where
    "item' = item\<lparr>knowledgeLevel := newLevel, nextReview := now + spec_delay newLevel,
                   lastReviewed := Some now\<rparr>"
  define st' where
    "st' = st\<lparr>learn_items := list_update (learn_items st) (nat (currentIndex st)) item'\<rparr>"
  have run: "updateItemKnowledge now st = Some st'"
    using cur iv by (simp add: updateItemKnowledge_def Let_def newLevel_def st'_def item'_def)
  have got: "at (learn_items st') (currentIndex st) = Some item'"
    using cur by (simp add: st'_def at_list_update)
  have lvl: "knowledgeLevel item' =
             (if feedback st = Some Correct then min (knowledgeLevel item + 1) 4
              else max (knowledgeLevel item - 1) 0)"
    by (simp add: item'_def newLevel_def min.commute max.commute)
  have "nextReview item' = now + spec_delay (knowledgeLevel item')"
    and "lastReviewed item' = Some now"
    by (simp_all add: item'_def)
  with run got lvl show ?thesis by blast
qed

text \<open>
  The spec's example: an item at level 2, one successful recall at time 1000; the level
  becomes 3 and the next review is three days (259200000 ms) later.
\<close>

theorem updateItemKnowledge_transition_witness:
  "at (learn_items (sample_view [sample_learn_item ''a'' ''d'' 2 0] StageQuiz [] (Some Correct)))
      (currentIndex (sample_view [sample_learn_item ''a'' ''d'' 2 0] StageQuiz [] (Some Correct)))
     = Some (sample_learn_item ''a'' ''d'' 2 0) \<and>
   0 \<le> knowledgeLevel (sample_learn_item ''a'' ''d'' 2 0) \<and>
   knowledgeLevel (sample_learn_item ''a'' ''d'' 2 0) \<le> 4 \<and>
   (\<exists>st' item'.
      updateItemKnowledge 1000
        (sample_view [sample_learn_item ''a'' ''d'' 2 0] StageQuiz [] (Some Correct)) = Some st' \<and>
      at (learn_items st') 0 = Some item' \<and>
      knowledgeLevel item' = 3 \<and> nextReview item' = 1000 + 259200000 \<and>
      lastReviewed item' = Some 1000)"
proof -
  let ?i = "sample_learn_item ''a'' ''d'' 2 0"
  let ?v = "sample_view [?i] StageQuiz [] (Some Correct)"
  have h1: "at (learn_items ?v) (currentIndex ?v) = Some ?i"
    by (simp add: sample_view_def at_def)
  have h2: "0 \<le> knowledgeLevel ?i" and h3: "knowledgeLevel ?i \<le> 4"
    by (simp_all add: sample_learn_item_def)
  from updateItemKnowledge_transition [OF h1 h2 h3, of 1000]
  obtain st' item' where
    r: "updateItemKnowledge 1000 ?v = Some st'"
       "at (learn_items st') (currentIndex ?v) = Some item'"
       "knowledgeLevel item' =
          (if feedback ?v = Some Correct then min (knowledgeLevel ?i + 1) 4
           else max (knowledgeLevel ?i - 1) 0)"
       "nextReview item' = 1000 + spec_delay (knowledgeLevel item')"
       "lastReviewed item' = Some 1000"
    by blast
  have l: "knowledgeLevel item' = 3"
    using r(3) by (simp add: sample_view_def sample_learn_item_def)
  have n: "nextReview item' = 1000 + 259200000"
    using r(4) l by (simp add: spec_delay_def day_def hour_def minute_def)
  have a: "at (learn_items st') 0 = Some item'"
    using r(2) by (simp add: sample_view_def)
  show ?thesis using h1 h2 h3 r(1) a l n r(5) by blast
qed

subsection \<open>Selection\<close>

text \<open>
  Claim C4. A selection step at time \<open>now\<close> (the effect runs its body in stage "term"),
  on items with pairwise different ids as the data model has them: when some item is due,
  the item at the new \<open>currentIndex\<close> is due and no due item has an earlier
  \<open>nextReview\<close>; when none is due, the session is marked complete.
\<close>

theorem selectNextItem_earliest_due:
  assumes stg: "stage st = StageTerm"
      and ids: "distinct (map item_id (learn_items st))"
  shows "if (\<exists>item\<in>set (learn_items st). nextReview item \<le> now)
         then (\<exists>item. at (learn_items st) (currentIndex (selectNextItem now st)) = Some item \<and>
                 nextReview item \<le> now \<and>
                 (\<forall>other\<in>set (learn_items st).
                     nextReview other \<le> now \<longrightarrow> nextReview item \<le> nextReview other))
         else isSessionComplete (selectNextItem now st)"
proof (cases "\<exists>item\<in>set (learn_items st). nextReview item \<le> now")
  case False
  then have "filter (\<lambda>item. nextReview item \<le> now) (learn_items st) = []"
    by (simp add: filter_empty_conv)
  then have "isSessionComplete (selectNextItem now st)"
    using stg by (simp add: selectNextItem_def)
  with False show ?thesis by simp
next
  case True
  let ?due = "filter (\<lambda>item. nextReview item \<le> now) (learn_items st)"
  let ?d = "hd (sort_key nextReview ?due)"
  let ?i = "findIndex (\<lambda>item. item_id item = item_id ?d) (learn_items st)"
  have ne: "?due \<noteq> []" using True by (simp add: filter_empty_conv)
  have least: "?d \<in> set ?due \<and> (\<forall>y\<in>set ?due. nextReview ?d \<le> nextReview y)"
    using ne by (rule hd_sort_key_least)
  then have d_in: "?d \<in> set (learn_items st)" and d_due: "nextReview ?d \<le> now" by auto
  have sel: "currentIndex (selectNextItem now st) = ?i"
    using stg sort_key_nonempty [OF ne, of nextReview] by (simp add: selectNextItem_def Let_def)
  have found: "0 \<le> ?i \<and> ?i < int (length (learn_items st)) \<and>
               item_id (learn_items st ! nat ?i) = item_id ?d"
    using findIndex_found [of ?d "learn_items st" "\<lambda>item. item_id item = item_id ?d"] d_in
    by simp
  have lt: "nat ?i < length (learn_items st)" using found by linarith
  have mem: "learn_items st ! nat ?i \<in> set (learn_items st)"
    using lt by (rule nth_mem)
  have idq: "item_id (learn_items st ! nat ?i) = item_id ?d" using found by blast
  have same: "learn_items st ! nat ?i = ?d"
    using ids mem d_in idq by (rule distinct_ids_eq)
  have got: "at (learn_items st) (currentIndex (selectNextItem now st)) = Some ?d"
    using sel found same by (simp add: at_def)
  have "\<forall>other\<in>set (learn_items st).
          nextReview other \<le> now \<longrightarrow> nextReview ?d \<le> nextReview other"
    using least by simp
  with got d_due True show ?thesis by auto
qed

text \<open>
  Two due items with \<open>nextReview\<close> 100 and 50 at time 200: the second one, due since
  50, is selected.
\<close>

theorem selectNextItem_earliest_due_witness:
  "stage (sample_view [sample_learn_item ''a'' ''d'' 0 100, sample_learn_item ''b'' ''e'' 0 50]
            StageTerm [] None) = StageTerm \<and>
   distinct (map item_id (learn_items
     (sample_view [sample_learn_item ''a'' ''d'' 0 100, sample_learn_item ''b'' ''e'' 0 50]
        StageTerm [] None))) \<and>
   (\<exists>item. at [sample_learn_item ''a'' ''d'' 0 100, sample_learn_item ''b'' ''e'' 0 50]
              (currentIndex (selectNextItem 200
                 (sample_view [sample_learn_item ''a'' ''d'' 0 100,
                               sample_learn_item ''b'' ''e'' 0 50] StageTerm [] None)))
            = Some item \<and>
          nextReview item \<le> 50)"
proof -
  let ?a = "sample_learn_item ''a'' ''d'' 0 100"
  let ?b = "sample_learn_item ''b'' ''e'' 0 50"
  let ?v = "sample_view [?a, ?b] StageTerm [] None"
  have h1: "stage ?v = StageTerm" by (simp add: sample_view_def)
  have h2: "distinct (map item_id (learn_items ?v))"
    by (simp add: sample_view_def sample_learn_item_def)
  have due: "\<exists>item\<in>set (learn_items ?v). nextReview item \<le> 200"
    by (simp add: sample_view_def sample_learn_item_def)
  from selectNextItem_earliest_due [OF h1 h2, of 200] due
  obtain item where
    r: "at (learn_items ?v) (currentIndex (selectNextItem 200 ?v)) = Some item"
       "\<forall>other\<in>set (learn_items ?v). nextReview other \<le> 200 \<longrightarrow> nextReview item \<le> nextReview other"
    by auto
  have "nextReview item \<le> nextReview ?b"
    using r(2) by (simp add: sample_view_def sample_learn_item_def)
  then have le: "nextReview item \<le> 50" by (simp add: sample_learn_item_def)
  have a: "at [?a, ?b] (currentIndex (selectNextItem 200 ?v)) = Some item"
    using r(1) by (simp add: sample_view_def)
  show ?thesis using h1 h2 a le by blast
qed

subsection \<open>Grading\<close>



section \<open>The fallback store: what the readers return\<close>

text \<open>
  \<^verbatim>\<open>initializeFromLocalStorage\<close> runs at the start of every reader and writer. On a store
  whose \<^verbatim>\<open>localStorage\<close> keeps every study set under its own key, the memory map after
  it holds for an id what \<open>storedSet\<close> says, and for a progress key what
  \<open>storedProgress\<close> says; so do \<^verbatim>\<open>getStudySet\<close> and \<^verbatim>\<open>getUserProgress\<close>.
\<close>

subsection \<open>Keys\<close>

lemma studySetKey_prefix [simp]: "startsWith (studySetKey i) ''study-set:''"
  by (simp add: studySetKey_def startsWith_def)

lemma studySetKey_inj [simp]: "studySetKey i = studySetKey j \<longleftrightarrow> i = j"
  by (simp add: studySetKey_def)

lemma studySetKey_not_index [simp]:
  "studySetKey i \<noteq> ''study-sets:all''" "''study-sets:all'' \<noteq> studySetKey i"
  by (auto simp: studySetKey_def)

lemma studySetKey_not_progress [simp]: "\<not> startsWith (studySetKey i) ''progress:''"
  by (simp add: studySetKey_def startsWith_def)

lemma progressKey_prefix [simp]: "startsWith (progressKey sid m) ''progress:''"
  by (simp add: progressKey_def startsWith_def)

lemma progressKey_not_set [simp]: "\<not> startsWith (progressKey sid m) ''study-set:''"
  by (simp add: progressKey_def startsWith_def)

lemma progressKey_not_index [simp]:
  "progressKey sid m \<noteq> ''study-sets:all''" "''study-sets:all'' \<noteq> progressKey sid m"
  by (auto simp: progressKey_def)

lemma prefix_differs:
  "startsWith k ''progress:'' \<Longrightarrow> k \<noteq> studySetKey i"
  "startsWith k ''progress:'' \<Longrightarrow> k \<noteq> ''study-sets:all''"
  by (auto simp: studySetKey_def startsWith_def)

lemma keyed_by_idD:
  assumes "keyed_by_id ls" "map_of ls key = Some (JStudySet s)" "startsWith key ''study-set:''"
  shows "key = studySetKey (set_id s)"
proof -
  have "(key, JStudySet s) \<in> set ls" using assms(2) by (rule map_of_SomeD)
  then show ?thesis using assms(1,3) by (auto simp: keyed_by_id_def entry_ok_def list_all_iff)
qed

subsection \<open>Loading study sets\<close>

lemma loadStudySet_other [simp]:
  "localStorage (loadStudySet ls key st) = localStorage st"
  "quota (loadStudySet ls key st) = quota st"
  "progress (loadStudySet ls key st) = progress st"
  by (auto simp: loadStudySet_def split: option.splits Stored.splits)

lemma fold_loadStudySet_other [simp]:
  "localStorage (fold (loadStudySet ls) ks st) = localStorage st"
  "quota (fold (loadStudySet ls) ks st) = quota st"
  "progress (fold (loadStudySet ls) ks st) = progress st"
  by (induction ks arbitrary: st) auto

lemma loadStudySet_sets:
  "map_of (studySets (loadStudySet ls key st)) i =
     (case map_of ls key of
        Some (JStudySet s) \<Rightarrow> if set_id s = i then Some s else map_of (studySets st) i
      | _ \<Rightarrow> map_of (studySets st) i)"
  by (auto simp: loadStudySet_def update_conv' split: option.splits Stored.splits)

lemma fold_loadStudySet_sets:
  assumes "keyed_by_id ls" "\<forall>k\<in>set ks. startsWith k ''study-set:''"
  shows "map_of (studySets (fold (loadStudySet ls) ks st)) i =
           (if studySetKey i \<in> set ks
            then (case map_of ls (studySetKey i) of
                    Some (JStudySet s) \<Rightarrow> Some s
                  | _ \<Rightarrow> map_of (studySets st) i)
            else map_of (studySets st) i)"
  using assms(2)
proof (induction ks arbitrary: st)
  case Nil
  then show ?case by simp
next
  case (Cons k ks)
  have pk: "startsWith k ''study-set:''" using Cons.prems by simp
  have key: "\<And>s. map_of ls k = Some (JStudySet s) \<Longrightarrow> k = studySetKey (set_id s)"
    using keyed_by_idD [OF assms(1) _ pk] by blast
  have ih: "map_of (studySets (fold (loadStudySet ls) ks (loadStudySet ls k st))) i =
           (if studySetKey i \<in> set ks
            then (case map_of ls (studySetKey i) of
                    Some (JStudySet s) \<Rightarrow> Some s
                  | _ \<Rightarrow> map_of (studySets (loadStudySet ls k st)) i)
            else map_of (studySets (loadStudySet ls k st)) i)"
    using Cons.IH Cons.prems by simp
  show ?case
  proof (cases "map_of ls k")
    case None
    show ?thesis using ih None
      by (auto simp: loadStudySet_sets split: option.splits Stored.splits)
  next
    case (Some v)
    show ?thesis
    proof (cases v)
      case (JStudySet s)
      then have k: "k = studySetKey (set_id s)" using key Some by simp
      show ?thesis using ih Some JStudySet k
        by (auto simp: loadStudySet_sets split: option.splits Stored.splits)
    qed (use ih Some in \<open>auto simp: loadStudySet_sets split: option.splits Stored.splits\<close>)
  qed
qed

subsection \<open>Loading progress\<close>

lemma loadProgress_other [simp]:
  "localStorage (loadProgress ls key st) = localStorage st"
  "quota (loadProgress ls key st) = quota st"
  "studySets (loadProgress ls key st) = studySets st"
  "studySetIds (loadProgress ls key st) = studySetIds st"
  by (auto simp: loadProgress_def split: option.splits Stored.splits)

lemma fold_loadProgress_other [simp]:
  "localStorage (fold (loadProgress ls) ks st) = localStorage st"
  "quota (fold (loadProgress ls) ks st) = quota st"
  "studySets (fold (loadProgress ls) ks st) = studySets st"
  "studySetIds (fold (loadProgress ls) ks st) = studySetIds st"
  by (induction ks arbitrary: st) auto

lemma loadAllSetsIds_other [simp]:
  "localStorage (loadAllSetsIds ls st) = localStorage st"
  "quota (loadAllSetsIds ls st) = quota st"
  "studySets (loadAllSetsIds ls st) = studySets st"
  "progress (loadAllSetsIds ls st) = progress st"
  by (auto simp: loadAllSetsIds_def split: option.splits Stored.splits)

lemma loadProgress_progress:
  "map_of (progress (loadProgress ls k st)) key =
     (case map_of ls k of
        Some (JProgress p) \<Rightarrow> if k = key then Some p else map_of (progress st) key
      | _ \<Rightarrow> map_of (progress st) key)"
  by (auto simp: loadProgress_def update_conv' split: option.splits Stored.splits)

lemma fold_loadProgress_progress:
  "map_of (progress (fold (loadProgress ls) ks st)) key =
     (if key \<in> set ks
      then (case map_of ls key of
              Some (JProgress p) \<Rightarrow> Some p
            | _ \<Rightarrow> map_of (progress st) key)
      else map_of (progress st) key)"
proof (induction ks arbitrary: st)
  case Nil
  then show ?case by simp
next
  case (Cons k ks)
  show ?case
    by (auto simp: Cons.IH loadProgress_progress split: option.splits Stored.splits)
qed

subsection \<open>initializeFromLocalStorage\<close>

lemma init_other [simp]:
  "localStorage (initializeFromLocalStorage st) = localStorage st"
  "quota (initializeFromLocalStorage st) = quota st"
  by (auto simp: initializeFromLocalStorage_def Let_def split: option.splits)

lemma init_server [simp]:
  "localStorage st = None \<Longrightarrow> initializeFromLocalStorage st = st"
  by (simp add: initializeFromLocalStorage_def)

lemma map_of_key_mem: "key \<in> fst ` set ls \<longleftrightarrow> map_of ls key \<noteq> None"
  by (simp add: map_of_eq_None_iff)

lemma init_studySets:
  assumes "storage_keyed st"
  shows "map_of (studySets (initializeFromLocalStorage st)) i = storedSet st i"
proof (cases "localStorage st")
  case None
  then show ?thesis by (simp add: storedSet_def)
next
  case (Some ls)
  then have k: "keyed_by_id ls" using assms by (simp add: storage_keyed_def)
  let ?ks = "filter (\<lambda>key. startsWith key ''study-set:'') (map fst ls)"
  have p: "\<forall>k\<in>set ?ks. startsWith k ''study-set:''" by simp
  have mem: "studySetKey i \<in> set ?ks \<longleftrightarrow> map_of ls (studySetKey i) \<noteq> None"
    using map_of_key_mem [of "studySetKey i" ls] by simp
  have "map_of (studySets (initializeFromLocalStorage st)) i =
        map_of (studySets (fold (loadStudySet ls) ?ks st)) i"
    using Some by (simp add: initializeFromLocalStorage_def Let_def)
  also have "\<dots> = storedSet st i"
    unfolding fold_loadStudySet_sets [OF k p] using Some mem
    by (auto simp: storedSet_def split: option.splits Stored.splits)
  finally show ?thesis .
qed

lemma init_progress:
  assumes "startsWith key ''progress:''"
  shows "map_of (progress (initializeFromLocalStorage st)) key = storedProgress st key"
proof (cases "localStorage st")
  case None
  then show ?thesis by (simp add: storedProgress_def)
next
  case (Some ls)
  let ?ks = "filter (\<lambda>key. startsWith key ''progress:'') (map fst ls)"
  have mem: "key \<in> set ?ks \<longleftrightarrow> map_of ls key \<noteq> None"
    using map_of_key_mem [of key ls] assms by simp
  have "map_of (progress (initializeFromLocalStorage st)) key =
        map_of (progress (fold (loadProgress ls) ?ks (loadAllSetsIds ls
           (fold (loadStudySet ls) (filter (\<lambda>key. startsWith key ''study-set:'') (map fst ls)) st)))) key"
    using Some by (simp add: initializeFromLocalStorage_def Let_def)
  also have "\<dots> = storedProgress st key"
    unfolding fold_loadProgress_progress using Some mem
    by (auto simp: storedProgress_def split: option.splits Stored.splits)
  finally show ?thesis .
qed

subsection \<open>What the readers return\<close>

lemma getStudySet_result:
  assumes "storage_keyed st"
  shows "fst (getStudySet i st) = storedSet st i"
proof -
  have m: "map_of (studySets (initializeFromLocalStorage st)) i = storedSet st i"
    using assms by (rule init_studySets)
  show ?thesis
  proof (cases "storedSet st i")
    case (Some s)
    then show ?thesis using m by (simp add: getStudySet_def Let_def)
  next
    case None
    then have "map_of (studySets (initializeFromLocalStorage st)) i = None" using m by simp
    then show ?thesis using None
      by (auto simp: getStudySet_def Let_def storedSet_def split: option.splits Stored.splits)
  qed
qed

lemma getUserProgress_result:
  "fst (getUserProgress sid m st) = storedProgress st (progressKey sid m)"
proof -
  let ?key = "progressKey sid m"
  have m: "map_of (progress (initializeFromLocalStorage st)) ?key = storedProgress st ?key"
    by (rule init_progress) simp
  show ?thesis
  proof (cases "storedProgress st ?key")
    case (Some p)
    then show ?thesis using m by (simp add: getUserProgress_def Let_def)
  next
    case None
    then have "map_of (progress (initializeFromLocalStorage st)) ?key = None" using m by simp
    then show ?thesis using None
      by (auto simp: getUserProgress_def Let_def storedProgress_def
               split: option.splits Stored.splits)
  qed
qed



section \<open>The fallback store: what the writers leave\<close>

subsection \<open>Storage writes\<close>

lemma setItem_memory [simp]:
  "studySets (snd (setItem k v st)) = studySets st"
  "studySetIds (snd (setItem k v st)) = studySetIds st"
  "progress (snd (setItem k v st)) = progress st"
  by (auto simp: setItem_def split: list.splits bool.splits)

lemma setItem_storage:
  "localStorage (snd (setItem k v st)) =
     (if fst (setItem k v st) then map_option (AList.update k v) (localStorage st)
      else localStorage st)"
  by (auto simp: setItem_def split: list.splits bool.splits)

lemma setItem_quota_empty [simp]:
  "quota st = [] \<Longrightarrow> fst (setItem k v st)"
  "quota st = [] \<Longrightarrow> quota (snd (setItem k v st)) = []"
  by (auto simp: setItem_def)

lemma removeItem_fields [simp]:
  "studySets (removeItem k st) = studySets st"
  "studySetIds (removeItem k st) = studySetIds st"
  "progress (removeItem k st) = progress st"
  "quota (removeItem k st) = quota st"
  "localStorage (removeItem k st) = map_option (AList.delete k) (localStorage st)"
  by (auto simp: removeItem_def)

lemma entry_ok_written [simp]:
  "entry_ok (studySetKey i) (JStudySet s) \<longleftrightarrow> set_id s = i"
  "entry_ok ''study-sets:all'' v"
  "entry_ok (progressKey sid m) (JProgress p)"
  by (auto simp: entry_ok_def startsWith_def studySetKey_def progressKey_def)

lemma keyed_by_id_update:
  assumes "keyed_by_id ls" and "entry_ok k v"
  shows "keyed_by_id (AList.update k v ls)"
  using assms by (induction ls) (auto simp: keyed_by_id_def)

lemma keyed_by_id_delete: "keyed_by_id ls \<Longrightarrow> keyed_by_id (AList.delete k ls)"
  by (simp add: keyed_by_id_def AList.delete_eq list_all_iff)

lemma storage_keyed_setItem:
  assumes "storage_keyed st" and "entry_ok k v"
  shows "storage_keyed (snd (setItem k v st))"
  using assms
  by (auto simp: storage_keyed_def setItem_storage keyed_by_id_update split: option.splits)

lemma storage_keyed_removeItem: "storage_keyed st \<Longrightarrow> storage_keyed (removeItem k st)"
  by (auto simp: storage_keyed_def keyed_by_id_delete split: option.splits)

lemma storage_keyed_init [simp]:
  "storage_keyed (initializeFromLocalStorage st) = storage_keyed st"
  by (simp add: storage_keyed_def)

lemma storage_keyed_memory [simp]:
  "storage_keyed (st\<lparr>studySets := a\<rparr>) = storage_keyed st"
  "storage_keyed (st\<lparr>studySetIds := b\<rparr>) = storage_keyed st"
  "storage_keyed (st\<lparr>progress := c\<rparr>) = storage_keyed st"
  by (simp_all add: storage_keyed_def)

lemma storedSet_init:
  assumes "storage_keyed st"
  shows "storedSet (initializeFromLocalStorage st) i = storedSet st i"
proof -
  have "map_of (studySets (initializeFromLocalStorage st)) i = storedSet st i"
    using assms by (rule init_studySets)
  then show ?thesis
    by (auto simp: storedSet_def split: option.splits Stored.splits)
qed

lemma storedProgress_init:
  assumes "startsWith key ''progress:''"
  shows "storedProgress (initializeFromLocalStorage st) key = storedProgress st key"
proof -
  have "map_of (progress (initializeFromLocalStorage st)) key = storedProgress st key"
    using assms by (rule init_progress)
  then show ?thesis
    by (auto simp: storedProgress_def split: option.splits Stored.splits)
qed

subsection \<open>deleteStudySet\<close>

lemma deleteStudySet_keyed:
  "storage_keyed st \<Longrightarrow> storage_keyed (snd (deleteStudySet i st))"
  by (auto simp: deleteStudySet_def Let_def storage_keyed_setItem storage_keyed_removeItem)

lemma deleteStudySet_storedSet:
  assumes "storage_keyed st"
  shows "storedSet (snd (deleteStudySet i st)) j = (if j = i then None else storedSet st j)"
proof -
  let ?st = "initializeFromLocalStorage st"
  have m: "\<And>j. map_of (studySets ?st) j = storedSet st j"
    using assms by (rule init_studySets)
  show ?thesis
  proof (cases "map_of (studySets ?st) i")
    case None
    then have "snd (deleteStudySet i st) = ?st" by (simp add: deleteStudySet_def Let_def)
    moreover have "storedSet st i = None" using None m by simp
    ultimately show ?thesis using storedSet_init [OF assms] by simp
  next
    case (Some s)
    show ?thesis
    proof (cases "localStorage st")
      case None
      then show ?thesis using Some
        by (simp add: deleteStudySet_def Let_def isClient_def storedSet_def delete_conv')
    next
      case ls: (Some ls)
      show ?thesis using Some ls m [of j]
        by (auto simp: deleteStudySet_def Let_def isClient_def storedSet_def delete_conv'
              update_conv' setItem_storage split: option.splits Stored.splits)
    qed
  qed
qed

lemma deleteStudySet_storedProgress:
  assumes "startsWith key ''progress:''"
  shows "storedProgress (snd (deleteStudySet i st)) key = storedProgress st key"
proof -
  let ?st = "initializeFromLocalStorage st"
  have m: "map_of (progress ?st) key = storedProgress st key"
    using assms by (rule init_progress)
  have k: "key \<noteq> studySetKey i" "key \<noteq> ''study-sets:all''"
    using assms by (rule prefix_differs)+
  show ?thesis
  proof (cases "map_of (studySets ?st) i")
    case None
    then have "snd (deleteStudySet i st) = ?st" by (simp add: deleteStudySet_def Let_def)
    then show ?thesis using storedProgress_init [OF assms] by simp
  next
    case (Some s)
    show ?thesis
    proof (cases "localStorage st")
      case None
      then show ?thesis using Some
        by (simp add: deleteStudySet_def Let_def isClient_def storedProgress_def)
    next
      case ls: (Some ls)
      show ?thesis using Some ls m k
        by (auto simp: deleteStudySet_def Let_def isClient_def storedProgress_def delete_conv'
              update_conv' setItem_storage split: option.splits Stored.splits)
    qed
  qed
qed



subsection \<open>createStudySet\<close>

lemma newStudySet_id [simp]: "set_id (newStudySet i now d) = i"
  by (simp add: newStudySet_def)

lemma createStudySet_result [simp]: "fst (createStudySet i now d st) = newStudySet i now d"
  by (auto simp: createStudySet_def Let_def split: prod.splits bool.splits)

lemma createStudySet_keyed:
  "storage_keyed st \<Longrightarrow> storage_keyed (snd (createStudySet i now d st))"
proof -
  assume k: "storage_keyed st"
  let ?st1 = "st\<lparr>studySets := AList.update i (newStudySet i now d) (studySets st),
                  studySetIds := pushNew i (studySetIds st)\<rparr>"
  let ?w = "setItem (studySetKey i) (JStudySet (newStudySet i now d)) ?st1"
  have k1: "storage_keyed (snd ?w)"
    by (rule storage_keyed_setItem) (use k in simp_all)
  have k2: "\<And>ids. storage_keyed (snd (setItem ''study-sets:all'' (JIds ids) (snd ?w)))"
    by (rule storage_keyed_setItem) (use k1 in simp_all)
  show ?thesis using k k1 k2
    by (cases ?w) (auto simp: createStudySet_def Let_def split: bool.splits)
qed

lemma createStudySet_storedSet:
  assumes "quota st = []"
  shows "storedSet (snd (createStudySet i now d st)) i = Some (newStudySet i now d)"
proof (cases "localStorage st")
  case None
  then show ?thesis
    by (simp add: createStudySet_def Let_def isClient_def storedSet_def update_conv')
next
  case (Some ls)
  let ?st1 = "st\<lparr>studySets := AList.update i (newStudySet i now d) (studySets st),
                  studySetIds := pushNew i (studySetIds st)\<rparr>"
  let ?w = "setItem (studySetKey i) (JStudySet (newStudySet i now d)) ?st1"
  have q: "quota ?st1 = []" using assms by simp
  have ok: "fst ?w" using q by (rule setItem_quota_empty)
  have q2: "quota (snd ?w) = []" using q by (rule setItem_quota_empty)
  have ls1: "localStorage (snd ?w) =
               Some (AList.update (studySetKey i) (JStudySet (newStudySet i now d)) ls)"
    using ok Some by (simp add: setItem_storage)
  show ?thesis using ok Some ls1 q2
    by (cases ?w)
       (auto simp: createStudySet_def Let_def isClient_def storedSet_def update_conv'
          setItem_storage split: bool.splits)
qed

subsection \<open>saveUserProgress\<close>

lemma saveUserProgress_result [simp]:
  "fst (saveUserProgress now p st) = p\<lparr>progress_updatedAt := now\<rparr>"
  by (simp add: saveUserProgress_def Let_def)

lemma saveUserProgress_quota:
  "quota st = [] \<Longrightarrow> quota (snd (saveUserProgress now p st)) = []"
  by (simp add: saveUserProgress_def Let_def)

lemma saveUserProgress_storedProgress:
  assumes "quota st = []"
  shows "storedProgress (snd (saveUserProgress now p st)) (progressKey (studySetId p) (mode p)) =
           Some (p\<lparr>progress_updatedAt := now\<rparr>)"
proof (cases "localStorage st")
  case None
  then show ?thesis
    by (simp add: saveUserProgress_def Let_def isClient_def storedProgress_def update_conv')
next
  case (Some ls)
  then show ?thesis using assms
    by (simp add: saveUserProgress_def Let_def isClient_def storedProgress_def update_conv'
          setItem_storage)
qed

lemma fold_loadProgress_distinct:
  "distinct (map fst (progress st)) \<Longrightarrow>
     distinct (map fst (progress (fold (loadProgress ls) ks st)))"
proof (induction ks arbitrary: st)
  case Nil
  then show ?case by simp
next
  case (Cons k ks)
  have "distinct (map fst (progress (loadProgress ls k st)))"
    using Cons.prems
    by (auto simp: loadProgress_def distinct_update split: option.splits Stored.splits)
  then show ?case using Cons.IH by simp
qed

lemma init_progress_distinct:
  "distinct (map fst (progress st)) \<Longrightarrow>
     distinct (map fst (progress (initializeFromLocalStorage st)))"
  by (auto simp: initializeFromLocalStorage_def Let_def fold_loadProgress_distinct
        split: option.splits)

lemma saveUserProgress_distinct:
  "distinct (map fst (progress st)) \<Longrightarrow>
     distinct (map fst (progress (snd (saveUserProgress now p st))))"
  by (simp add: saveUserProgress_def Let_def init_progress_distinct distinct_update)

subsection \<open>updateStudySet\<close>

lemma updateStudySet_absent:
  assumes "storage_keyed st" "storedSet st i = None"
  shows "fst (updateStudySet i now d st) = None"
proof -
  have k: "storage_keyed (initializeFromLocalStorage st)" using assms(1) by simp
  have "fst (getStudySet i (initializeFromLocalStorage st)) = None"
    using getStudySet_result [OF k] storedSet_init [OF assms(1)] assms(2) by simp
  then show ?thesis
    by (cases "getStudySet i (initializeFromLocalStorage st)")
       (simp add: updateStudySet_def)
qed



subsection \<open>updateStudySet followed by getStudySet\<close>

lemma storedSet_id:
  assumes "wf_local st" "storedSet st i = Some e"
  shows "set_id e = i"
proof (cases "localStorage st")
  case None
  then have "map_of (studySets st) i = Some e" using assms(2) by (simp add: storedSet_def)
  then have "(i, e) \<in> set (studySets st)" by (rule map_of_SomeD)
  then show ?thesis using assms(1) by (auto simp: wf_local_def list_all_iff)
next
  case (Some ls)
  have k: "keyed_by_id ls" using assms(1) Some by (simp add: wf_local_def storage_keyed_def)
  show ?thesis
  proof (cases "\<exists>s. map_of ls (studySetKey i) = Some (JStudySet s)")
    case True
    then obtain s where s: "map_of ls (studySetKey i) = Some (JStudySet s)" by blast
    then have "e = s" using assms(2) Some by (simp add: storedSet_def)
    moreover have "studySetKey i = studySetKey (set_id s)"
      using keyed_by_idD [OF k s] by simp
    ultimately show ?thesis by simp
  next
    case False
    then have "map_of (studySets st) i = Some e" using assms(2) Some
      by (auto simp: storedSet_def split: option.splits Stored.splits)
    then have "(i, e) \<in> set (studySets st)" by (rule map_of_SomeD)
    then show ?thesis using assms(1) by (auto simp: wf_local_def list_all_iff)
  qed
qed

lemma getStudySet_state [simp]:
  "localStorage (snd (getStudySet i st)) = localStorage st"
  "quota (snd (getStudySet i st)) = quota st"
  by (auto simp: getStudySet_def Let_def split: option.splits Stored.splits)

lemma updateStudySet_result:
  assumes "wf_local st"
  shows "fst (updateStudySet i now d st) =
           map_option (\<lambda>e. (spreadPatch e d)\<lparr>updatedAt := now\<rparr>) (storedSet st i)"
proof -
  have k: "storage_keyed st" using assms by (simp add: wf_local_def)
  have k': "storage_keyed (initializeFromLocalStorage st)" using k by simp
  have g: "fst (getStudySet i (initializeFromLocalStorage st)) = storedSet st i"
    using getStudySet_result [OF k'] storedSet_init [OF k] by simp
  show ?thesis using g
    by (cases "getStudySet i (initializeFromLocalStorage st)")
       (auto simp: updateStudySet_def Let_def split: option.splits)
qed

lemma updateStudySet_then_get:
  assumes wf: "wf_local st" and q: "quota st = []"
      and e: "storedSet st i = Some e"
  shows "storage_keyed (snd (updateStudySet i now d st)) \<and>
         storedSet (snd (updateStudySet i now d st)) i =
           Some ((spreadPatch e d)\<lparr>updatedAt := now\<rparr>)"
proof -
  let ?u = "(spreadPatch e d)\<lparr>updatedAt := now\<rparr>"
  let ?g = "getStudySet i (initializeFromLocalStorage st)"
  have k: "storage_keyed st" using wf by (simp add: wf_local_def)
  have k': "storage_keyed (initializeFromLocalStorage st)" using k by simp
  have g: "fst ?g = Some e"
    using getStudySet_result [OF k'] storedSet_init [OF k] e by simp
  then obtain b where gb: "?g = (Some e, b)" by (cases ?g) auto
  have bl: "localStorage b = localStorage st"
    using getStudySet_state(1) [of i "initializeFromLocalStorage st"] unfolding gb by simp
  have bq: "quota b = []"
    using getStudySet_state(2) [of i "initializeFromLocalStorage st"] q unfolding gb by simp
  have uid: "set_id ?u = i" using storedSet_id [OF wf e] by (simp add: spreadPatch_def)
  let ?st1 = "b\<lparr>studySets := AList.update i ?u (studySets b)\<rparr>"
  have kg: "storage_keyed ?st1" using k bl by (simp add: storage_keyed_def)
  show ?thesis
  proof (cases "localStorage st")
    case None
    then have run: "snd (updateStudySet i now d st) = ?st1"
      using gb bl by (simp add: updateStudySet_def Let_def isClient_def)
    show ?thesis unfolding run using kg None bl
      by (simp add: storedSet_def update_conv')
  next
    case (Some ls)
    let ?w = "setItem (studySetKey i) (JStudySet ?u) ?st1"
    have run: "snd (updateStudySet i now d st) = snd ?w"
      using gb bl Some by (simp add: updateStudySet_def Let_def isClient_def)
    have q1: "quota ?st1 = []" using bq by simp
    have ok: "fst ?w" using q1 by (rule setItem_quota_empty)
    have ls': "localStorage (snd ?w) = Some (AList.update (studySetKey i) (JStudySet ?u) ls)"
      using ok Some bl by (simp add: setItem_storage)
    have kw: "storage_keyed (snd ?w)"
      by (rule storage_keyed_setItem) (use kg uid in simp_all)
    show ?thesis unfolding run using kw ls'
      by (simp add: storedSet_def update_conv')
  qed
qed



section \<open>The fallback store: well-formedness is an invariant\<close>

text \<open>
  The empty store is well formed and every operation keeps a well-formed store well
  formed, whatever \<^verbatim>\<open>setItem\<close> calls fail.
\<close>

lemma wf_local_parts: "wf_local st \<longleftrightarrow> memory_keyed st \<and> storage_keyed st"
  by (simp add: wf_local_def memory_keyed_def)

lemma list_all_update:
  "list_all P al \<Longrightarrow> P (k, v) \<Longrightarrow> list_all P (AList.update k v al)"
  by (induction al) auto

lemma list_all_delete: "list_all P al \<Longrightarrow> list_all P (AList.delete k al)"
  by (simp add: AList.delete_eq list_all_iff)

lemma memory_keyed_loadStudySet:
  "memory_keyed st \<Longrightarrow> memory_keyed (loadStudySet ls key st)"
  by (auto simp: memory_keyed_def loadStudySet_def list_all_update
        split: option.splits Stored.splits)

lemma memory_keyed_fold_loadStudySet:
  "memory_keyed st \<Longrightarrow> memory_keyed (fold (loadStudySet ls) ks st)"
  by (induction ks arbitrary: st) (auto simp: memory_keyed_loadStudySet)

lemma memory_keyed_init:
  "memory_keyed st \<Longrightarrow> memory_keyed (initializeFromLocalStorage st)"
proof (cases "localStorage st")
  case None
  then show "memory_keyed st \<Longrightarrow> ?thesis" by simp
next
  case (Some ls)
  assume m: "memory_keyed st"
  let ?st1 = "fold (loadStudySet ls) (filter (\<lambda>key. startsWith key ''study-set:'') (map fst ls)) st"
  have "memory_keyed ?st1" using m by (rule memory_keyed_fold_loadStudySet)
  then have "list_all (\<lambda>(k, s). set_id s = k) (studySets ?st1)" by (simp add: memory_keyed_def)
  then show ?thesis using Some
    by (simp add: memory_keyed_def initializeFromLocalStorage_def Let_def)
qed

lemma wf_local_init: "wf_local st \<Longrightarrow> wf_local (initializeFromLocalStorage st)"
  by (simp add: wf_local_parts memory_keyed_init)

lemma memory_keyed_setItem [simp]: "memory_keyed (snd (setItem k v st)) = memory_keyed st"
  by (simp add: memory_keyed_def)

lemma memory_keyed_removeItem [simp]: "memory_keyed (removeItem k st) = memory_keyed st"
  by (simp add: memory_keyed_def)

lemma wf_local_empty: "wf_local (emptyLocalDb client)"
  by (simp add: wf_local_def emptyLocalDb_def storage_keyed_def keyed_by_id_def)

lemma wf_local_createStudySet:
  assumes "wf_local st"
  shows "wf_local (snd (createStudySet i now d st))"
proof -
  have k: "storage_keyed (snd (createStudySet i now d st))"
    using assms by (simp add: wf_local_parts createStudySet_keyed)
  let ?st1 = "st\<lparr>studySets := AList.update i (newStudySet i now d) (studySets st),
                  studySetIds := pushNew i (studySetIds st)\<rparr>"
  have m1: "memory_keyed ?st1"
    using assms by (simp add: wf_local_parts memory_keyed_def list_all_update)
  have "memory_keyed (snd (createStudySet i now d st))"
    using m1
    by (cases "setItem (studySetKey i) (JStudySet (newStudySet i now d)) ?st1")
       (auto simp: createStudySet_def Let_def memory_keyed_def split: bool.splits
             dest: arg_cong [where f = "\<lambda>p. studySets (snd p)"])
  then show ?thesis using k by (simp add: wf_local_parts)
qed

lemma wf_local_getStudySet:
  assumes "wf_local st"
  shows "wf_local (snd (getStudySet i st))"
proof -
  let ?st = "initializeFromLocalStorage st"
  have wf: "wf_local ?st" using assms by (rule wf_local_init)
  have m: "memory_keyed ?st" and k: "storage_keyed ?st" using wf by (simp_all add: wf_local_parts)
  have id: "\<And>ls s. localStorage ?st = Some ls \<Longrightarrow> map_of ls (studySetKey i) = Some (JStudySet s)
              \<Longrightarrow> set_id s = i"
  proof -
    fix ls s assume a: "localStorage ?st = Some ls" "map_of ls (studySetKey i) = Some (JStudySet s)"
    have "keyed_by_id ls" using k a(1) by (simp add: storage_keyed_def)
    then have "studySetKey i = studySetKey (set_id s)"
      using a(2) by (rule keyed_by_idD) simp
    then show "set_id s = i" by simp
  qed
  show ?thesis using m k id
    by (auto simp: getStudySet_def Let_def wf_local_parts memory_keyed_def list_all_update
          split: option.splits Stored.splits)
qed

lemma wf_local_deleteStudySet:
  assumes "wf_local st"
  shows "wf_local (snd (deleteStudySet i st))"
proof -
  have k: "storage_keyed (snd (deleteStudySet i st))"
    using assms by (simp add: wf_local_parts deleteStudySet_keyed)
  have m: "memory_keyed (initializeFromLocalStorage st)"
    using assms by (simp add: wf_local_parts memory_keyed_init)
  then have "memory_keyed (snd (deleteStudySet i st))"
    by (auto simp: deleteStudySet_def Let_def memory_keyed_def list_all_delete)
  then show ?thesis using k by (simp add: wf_local_parts)
qed

lemma wf_local_saveUserProgress:
  assumes "wf_local st"
  shows "wf_local (snd (saveUserProgress now p st))"
proof -
  have wf: "wf_local (initializeFromLocalStorage st)" using assms by (rule wf_local_init)
  then have m: "memory_keyed (initializeFromLocalStorage st)"
    and k: "storage_keyed (initializeFromLocalStorage st)" by (simp_all add: wf_local_parts)
  let ?st1 = "(initializeFromLocalStorage st)\<lparr>progress :=
      AList.update (progressKey (studySetId p) (mode p)) (p\<lparr>progress_updatedAt := now\<rparr>)
        (progress (initializeFromLocalStorage st))\<rparr>"
  have k1: "storage_keyed ?st1" using k by simp
  have kw: "storage_keyed (snd (setItem (progressKey (studySetId p) (mode p))
              (JProgress (p\<lparr>progress_updatedAt := now\<rparr>)) ?st1))"
    using k1 by (rule storage_keyed_setItem) simp
  show ?thesis using m k1 kw
    by (auto simp: saveUserProgress_def Let_def wf_local_parts memory_keyed_def)
qed

lemma wf_local_getUserProgress:
  assumes "wf_local st"
  shows "wf_local (snd (getUserProgress sid m st))"
proof -
  have wf: "wf_local (initializeFromLocalStorage st)" using assms by (rule wf_local_init)
  then show ?thesis
    by (auto simp: getUserProgress_def Let_def wf_local_def storage_keyed_def
          split: option.splits Stored.splits)
qed

lemma wf_local_getAllStudySets:
  "wf_local st \<Longrightarrow> wf_local (snd (getAllStudySets st))"
  by (simp add: getAllStudySets_def Let_def wf_local_init)

lemma wf_local_updateStudySet:
  assumes "wf_local st"
  shows "wf_local (snd (updateStudySet i now d st))"
proof -
  let ?g = "getStudySet i (initializeFromLocalStorage st)"
  have wfi: "wf_local (initializeFromLocalStorage st)" using assms by (rule wf_local_init)
  have wfg: "wf_local (snd ?g)" using wfi by (rule wf_local_getStudySet)
  have k: "storage_keyed (initializeFromLocalStorage st)" using wfi by (simp add: wf_local_parts)
  have r: "fst ?g = storedSet (initializeFromLocalStorage st) i"
    using k by (rule getStudySet_result)
  show ?thesis
  proof (cases "fst ?g")
    case None
    then show ?thesis using wfg by (cases ?g) (simp add: updateStudySet_def)
  next
    case (Some e)
    then obtain b where gb: "?g = (Some e, b)" by (cases ?g) auto
    have wfb: "wf_local b" using wfg gb by simp
    have "storedSet (initializeFromLocalStorage st) i = Some e" using r Some by simp
    then have eid: "set_id e = i" using storedSet_id [OF wfi] by blast
    let ?u = "(spreadPatch e d)\<lparr>updatedAt := now\<rparr>"
    have uid: "set_id ?u = i" using eid by (simp add: spreadPatch_def)
    let ?st1 = "b\<lparr>studySets := AList.update i ?u (studySets b)\<rparr>"
    have m1: "memory_keyed ?st1"
      using wfb uid by (simp add: wf_local_parts memory_keyed_def list_all_update)
    have k1: "storage_keyed ?st1" using wfb by (simp add: wf_local_parts)
    have kw: "storage_keyed (snd (setItem (studySetKey i) (JStudySet ?u) ?st1))"
      using k1 by (rule storage_keyed_setItem) (simp add: uid)
    show ?thesis using gb m1 k1 kw
      by (simp add: updateStudySet_def Let_def wf_local_parts)
  qed
qed



section \<open>The database backend\<close>

subsection \<open>query\<close>

lemma query_fault:
  "query_fails db \<Longrightarrow>
     query stmt db = (Inl ConnectionError, db\<lparr>faults := tl (faults db), thrown := thrown db + 1\<rparr>)"
  by (auto simp: query_fails_def query_def split: list.splits bool.splits)

lemma query_run:
  "\<not> query_fails db \<Longrightarrow>
     query stmt db =
       (case stmt (db\<lparr>faults := tl (faults db)\<rparr>) of
          Inl e \<Rightarrow> (Inl e, db\<lparr>faults := tl (faults db), thrown := thrown db + 1\<rparr>)
        | Inr (r, db2) \<Rightarrow> (Inr r, db2))"
  by (cases "faults db")
     (auto simp: query_fails_def query_def Let_def split: sum.splits bool.splits)

lemma faults_same: "faults db = fs \<Longrightarrow> db\<lparr>faults := fs\<rparr> = db"
  by (cases db) simp

lemma no_faults_run:
  "faults db = [] \<Longrightarrow>
     query stmt db =
       (case stmt db of
          Inl e \<Rightarrow> (Inl e, db\<lparr>thrown := thrown db + 1\<rparr>)
        | Inr (r, db2) \<Rightarrow> (Inr r, db2))"
  by (simp add: query_def Let_def faults_same)

lemma no_faults_not_fails [simp]: "faults db = [] \<Longrightarrow> \<not> query_fails db"
  by (simp add: query_fails_def)

lemma consoleError_fields [simp]:
  "study_sets (consoleError msg db) = study_sets db"
  "study_items (consoleError msg db) = study_items db"
  "user_progress (consoleError msg db) = user_progress db"
  "faults (consoleError msg db) = faults db"
  "row_order (consoleError msg db) = row_order db"
  "console (consoleError msg db) = console db @ [msg]"
  "thrown (consoleError msg db) = thrown db"
  by (simp_all add: consoleError_def)

subsection \<open>Reading a study set\<close>

lemma getStudySetDb_never_throws: "\<exists>r. fst (getStudySetDb i db) = Inr r"
  by (auto simp: getStudySetDb_def split: prod.splits sum.splits)

lemma getStudySetDb_absent:
  assumes "i \<notin> set (map row_id (study_sets db))"
  shows "fst (getStudySetDb i db) = Inr None"
proof (cases "query_fails db")
  case True
  then show ?thesis by (simp add: getStudySetDb_def query_fault)
next
  case False
  have "filter (\<lambda>r. row_id r = i) (study_sets db) = []"
    using assms by (auto simp: filter_empty_conv)
  then show ?thesis using False
    by (simp add: getStudySetDb_def query_run select_study_set_def)
qed

lemma getStudySetDb_absent_tables:
  "study_sets (snd (getStudySetDb i db)) = study_sets db \<and>
   study_items (snd (getStudySetDb i db)) = study_items db \<and>
   user_progress (snd (getStudySetDb i db)) = user_progress db"
  by (auto simp: getStudySetDb_def query_def Let_def select_study_set_def select_study_items_def
        split: prod.splits sum.splits list.splits bool.splits)

lemma getStudySetDb_present:
  assumes "faults db = []" "filter (\<lambda>r. row_id r = i) (study_sets db) = row # others"
  shows "getStudySetDb i db =
           (Inr (Some (rowStudySet row
              (row_order db (filter (\<lambda>r. study_set_id r = i) (study_items db))))), db)"
  using assms
  by (simp add: getStudySetDb_def no_faults_run select_study_set_def select_study_items_def)

subsection \<open>updateStudySetDb on a missing id\<close>

lemma updateStudySetDb_absent:
  assumes "i \<notin> set (map row_id (study_sets db))"
  shows "fst (updateStudySetDb i now d db) = Inr None"
proof -
  have "fst (getStudySetDb i db) = Inr None" using assms by (rule getStudySetDb_absent)
  then show ?thesis
    by (cases "getStudySetDb i db") (simp add: updateStudySetDb_def)
qed

subsection \<open>deleteStudySetDb\<close>

lemma deleteStudySetDb_run:
  assumes "\<not> query_fails db"
  shows "deleteStudySetDb i db =
           (Inr (0 < length (filter (\<lambda>r. row_id r = i) (study_sets db))),
            db\<lparr>faults := tl (faults db),
               study_sets := filter (\<lambda>r. row_id r \<noteq> i) (study_sets db),
               study_items := filter (\<lambda>r. study_set_id r \<noteq> i) (study_items db),
               user_progress := filter (\<lambda>r. studySetId r \<noteq> i) (user_progress db)\<rparr>)"
  using assms by (simp add: deleteStudySetDb_def query_run delete_study_set_def)

lemma deleteStudySetDb_then_get:
  assumes "\<not> query_fails db"
  shows "fst (getStudySetDb i (snd (deleteStudySetDb i db))) = Inr None \<and>
         filter (\<lambda>r. study_set_id r = i) (study_items (snd (deleteStudySetDb i db))) = []"
proof -
  have "i \<notin> set (map row_id (study_sets (snd (deleteStudySetDb i db))))"
    by (auto simp: deleteStudySetDb_run [OF assms])
  then have "fst (getStudySetDb i (snd (deleteStudySetDb i db))) = Inr None"
    by (rule getStudySetDb_absent)
  moreover have "filter (\<lambda>r. study_set_id r = i) (study_items (snd (deleteStudySetDb i db))) = []"
    by (simp add: deleteStudySetDb_run [OF assms] filter_empty_conv)
  ultimately show ?thesis by blast
qed



subsection \<open>saveUserProgressDb\<close>

lemma progress_row_eq:
  fixes r p :: UserProgress
  assumes "studySetId r = studySetId p" "mode r = mode p"
  shows "r\<lparr>progress_updatedAt := progress_updatedAt p, itemsStudied := itemsStudied p,
           correctAnswers := correctAnswers p, incorrectAnswers := incorrectAnswers p,
           completedSessions := completedSessions p\<rparr> = p"
  using assms by (cases r, cases p) simp

lemma update_rows_select:
  fixes p :: UserProgress
  defines "match \<equiv> \<lambda>r. studySetId r = studySetId p \<and> mode r = mode p"
  defines "upd \<equiv> \<lambda>r. if match r
                   then r\<lparr>progress_updatedAt := progress_updatedAt p,
                           itemsStudied := itemsStudied p,
                           correctAnswers := correctAnswers p,
                           incorrectAnswers := incorrectAnswers p,
                           completedSessions := completedSessions p\<rparr>
                   else r"
  shows "filter match (map upd rows) = map (\<lambda>r. p) (filter match rows)"
    and "map (\<lambda>r. (studySetId r, mode r)) (map upd rows) = map (\<lambda>r. (studySetId r, mode r)) rows"
    and "studySetId ` set (map upd rows) = studySetId ` set rows"
proof -
  have u: "\<And>r. match r \<Longrightarrow> upd r = p"
    unfolding upd_def match_def using progress_row_eq by simp
  have n: "\<And>r. \<not> match r \<Longrightarrow> upd r = r" by (simp add: upd_def)
  have m: "\<And>r. match (upd r) = match r"
    using u n by (metis match_def)
  show "filter match (map upd rows) = map (\<lambda>r. p) (filter match rows)"
    by (induction rows) (auto simp: m u)
  have k: "\<And>r. (studySetId (upd r), mode (upd r)) = (studySetId r, mode r)"
    using u n by (metis match_def)
  show "map (\<lambda>r. (studySetId r, mode r)) (map upd rows) = map (\<lambda>r. (studySetId r, mode r)) rows"
    by (simp add: k)
  have "\<And>r. studySetId (upd r) = studySetId r" using k by simp
  then show "studySetId ` set (map upd rows) = studySetId ` set rows"
    by (simp add: image_image)
qed

lemma saveUserProgressDb_run:
  assumes nf: "faults db = []"
      and c: "counters_int4 p"
      and fk: "studySetId p \<in> set (map row_id (study_sets db))"
  shows "fst (saveUserProgressDb now p db) = Inr (p\<lparr>progress_updatedAt := now\<rparr>) \<and>
         faults (snd (saveUserProgressDb now p db)) = [] \<and>
         study_sets (snd (saveUserProgressDb now p db)) = study_sets db \<and>
         (\<exists>others. filter (\<lambda>r. studySetId r = studySetId p \<and> mode r = mode p)
                      (user_progress (snd (saveUserProgressDb now p db)))
                    = p\<lparr>progress_updatedAt := now\<rparr> # others) \<and>
         (distinct (map (\<lambda>r. (studySetId r, mode r)) (user_progress db)) \<longrightarrow>
          distinct (map (\<lambda>r. (studySetId r, mode r))
                      (user_progress (snd (saveUserProgressDb now p db)))))"
proof -
  define q where "q = p\<lparr>progress_updatedAt := now\<rparr>"
  define match where "match = (\<lambda>r::UserProgress. studySetId r = studySetId q \<and> mode r = mode q)"
  define upd where
    "upd = (\<lambda>r. if match r
                 then r\<lparr>progress_updatedAt := progress_updatedAt q,
                         itemsStudied := itemsStudied q,
                         correctAnswers := correctAnswers q,
                         incorrectAnswers := incorrectAnswers q,
                         completedSessions := completedSessions q\<rparr>
                 else r)"
  define db1 where "db1 = db\<lparr>user_progress := map upd (user_progress db)\<rparr>"
  have mq: "match = (\<lambda>r. studySetId r = studySetId p \<and> mode r = mode p)"
    by (simp add: match_def q_def)
  have c': "counters_int4 q" using c by (simp add: counters_int4_def q_def)
  have fk': "studySetId q \<in> set (map row_id (study_sets db))" using fk by (simp add: q_def)
  have q1: "query (update_progress q) db = (Inr (length (filter match (user_progress db))), db1)"
    using nf c' by (simp add: no_faults_run update_progress_def db1_def upd_def match_def)
  have goal: "fst (saveUserProgressDb now p db) = Inr q \<and>
         faults (snd (saveUserProgressDb now p db)) = [] \<and>
         study_sets (snd (saveUserProgressDb now p db)) = study_sets db \<and>
         (\<exists>others. filter match (user_progress (snd (saveUserProgressDb now p db))) = q # others) \<and>
         (distinct (map (\<lambda>r. (studySetId r, mode r)) (user_progress db)) \<longrightarrow>
          distinct (map (\<lambda>r. (studySetId r, mode r))
                      (user_progress (snd (saveUserProgressDb now p db)))))"
  proof (cases "filter match (user_progress db)")
    case Nil
    then have none: "\<forall>r\<in>set (user_progress db). \<not> match r"
      by (simp add: filter_empty_conv)
    then have "map upd (user_progress db) = user_progress db"
      by (intro map_idI) (auto simp: upd_def)
    then have db1: "db1 = db" by (simp add: db1_def)
    have nodup: "\<not> (\<exists>r\<in>set (user_progress db). studySetId r = studySetId q \<and> mode r = mode q)"
      using none by (simp add: match_def)
    have q2: "query (insert_progress q) db =
                (Inr (), db\<lparr>user_progress := user_progress db @ [q]\<rparr>)"
      using nf c' nodup fk' by (simp add: no_faults_run insert_progress_def)
    have run: "saveUserProgressDb now p db =
                 (Inr q, db\<lparr>user_progress := user_progress db @ [q]\<rparr>)"
      using q1 Nil q2 db1 by (simp add: saveUserProgressDb_def Let_def q_def [symmetric])
    have sel: "filter match (user_progress db @ [q]) = [q]"
      using Nil by (simp add: match_def)
    have fresh: "(studySetId q, mode q) \<notin> (\<lambda>r. (studySetId r, mode r)) ` set (user_progress db)"
      using none by (auto simp: match_def)
    show ?thesis unfolding run using nf sel fresh by simp
  next
    case (Cons r rs)
    have run: "saveUserProgressDb now p db = (Inr q, db1)"
      using q1 Cons by (simp add: saveUserProgressDb_def Let_def q_def [symmetric])
    have sel: "filter match (map upd (user_progress db)) = q # map (\<lambda>r. q) rs"
      using update_rows_select(1) [of q "user_progress db"] Cons
      by (simp add: match_def upd_def)
    have keys: "map (\<lambda>r. (studySetId r, mode r)) (map upd (user_progress db)) =
                map (\<lambda>r. (studySetId r, mode r)) (user_progress db)"
      using update_rows_select(2) [of q "user_progress db"]
      by (simp add: match_def upd_def)
    have f: "user_progress db1 = map upd (user_progress db)" "faults db1 = []"
         "study_sets db1 = study_sets db"
      using nf by (simp_all add: db1_def)
    have d: "distinct (map (\<lambda>r. (studySetId r, mode r)) (user_progress db)) \<longrightarrow>
             distinct (map (\<lambda>r. (studySetId r, mode r)) (map upd (user_progress db)))"
      unfolding keys by simp
    have e: "\<exists>others. filter match (map upd (user_progress db)) = q # others"
      using sel by blast
    show ?thesis unfolding run fst_conv snd_conv f using e d by blast
  qed
  show ?thesis using goal unfolding mq q_def .
qed

lemma getUserProgressDb_run:
  assumes "faults db = []"
      and "filter (\<lambda>r. studySetId r = sid \<and> mode r = m) (user_progress db) = p # others"
  shows "fst (getUserProgressDb sid m db) = Inr (Some p)"
  using assms by (simp add: getUserProgressDb_def no_faults_run select_progress_def)

lemma save_save_get_Db:
  assumes nf: "faults db = []"
      and c: "counters_int4 p2"
      and fk: "studySetId p2 \<in> set (map row_id (study_sets db))"
      and c1: "counters_int4 p1" and k: "studySetId p1 = studySetId p2"
  shows "fst (getUserProgressDb (studySetId p2) (mode p2)
               (snd (saveUserProgressDb t2 p2 (snd (saveUserProgressDb t1 p1 db))))) =
           Inr (Some (p2\<lparr>progress_updatedAt := t2\<rparr>))"
proof -
  let ?db1 = "snd (saveUserProgressDb t1 p1 db)"
  have fk1: "studySetId p1 \<in> set (map row_id (study_sets db))" using fk k by simp
  have s1: "faults ?db1 = []" "study_sets ?db1 = study_sets db"
    using saveUserProgressDb_run [OF nf c1 fk1, of t1] by simp_all
  have fk2: "studySetId p2 \<in> set (map row_id (study_sets ?db1))" using fk s1 by simp
  from saveUserProgressDb_run [OF s1(1) c fk2, of t2]
  obtain others where
    s2: "faults (snd (saveUserProgressDb t2 p2 ?db1)) = []"
        "filter (\<lambda>r. studySetId r = studySetId p2 \<and> mode r = mode p2)
           (user_progress (snd (saveUserProgressDb t2 p2 ?db1))) =
         p2\<lparr>progress_updatedAt := t2\<rparr> # others"
    by blast
  show ?thesis using getUserProgressDb_run [OF s2] .
qed



lemma saveUserProgressDb_unique:
  "distinct (map (\<lambda>r. (studySetId r, mode r)) (user_progress db)) \<Longrightarrow>
     distinct (map (\<lambda>r. (studySetId r, mode r)) (user_progress (snd (saveUserProgressDb now p db))))"
proof -
  assume d: "distinct (map (\<lambda>r. (studySetId r, mode r)) (user_progress db))"
  define q where "q = p\<lparr>progress_updatedAt := now\<rparr>"
  define upd where
    "upd = (\<lambda>r::UserProgress. if studySetId r = studySetId q \<and> mode r = mode q
                 then r\<lparr>progress_updatedAt := progress_updatedAt q,
                         itemsStudied := itemsStudied q,
                         correctAnswers := correctAnswers q,
                         incorrectAnswers := incorrectAnswers q,
                         completedSessions := completedSessions q\<rparr>
                 else r)"
  have keys: "\<And>rows. map (\<lambda>r. (studySetId r, mode r)) (map upd rows) =
                map (\<lambda>r. (studySetId r, mode r)) rows"
    using update_rows_select(2) [of q] by (simp add: upd_def)
  have d1: "distinct (map (\<lambda>r. (studySetId r, mode r)) (map upd (user_progress db)))"
    unfolding keys using d .
  have d2: "\<not> (\<exists>r\<in>set (map upd (user_progress db)). studySetId r = studySetId q \<and> mode r = mode q)
            \<Longrightarrow> distinct (map (\<lambda>r. (studySetId r, mode r)) (map upd (user_progress db) @ [q]))"
    using d1 by auto
  show ?thesis
    using d d1 d2
    by (auto simp: saveUserProgressDb_def Let_def query_def update_progress_def
          insert_progress_def q_def [symmetric] upd_def [symmetric] consoleError_def
          split: list.splits bool.splits if_splits)
qed

lemma saveUserProgressDb_unknown_set:
  assumes "faults db = []" "counters_int4 p"
      and "study_sets db = []" "user_progress db = []"
  shows "faults (snd (saveUserProgressDb now p db)) = [] \<and>
         study_sets (snd (saveUserProgressDb now p db)) = [] \<and>
         user_progress (snd (saveUserProgressDb now p db)) = []"
proof -
  have c: "counters_int4 (p\<lparr>progress_updatedAt := now\<rparr>)"
    using assms(2) by (simp add: counters_int4_def)
  show ?thesis using assms c
    by (simp add: saveUserProgressDb_def Let_def no_faults_run update_progress_def
          insert_progress_def)
qed



subsection \<open>createStudySetDb\<close>

lemma toStudyItemRow_fields [simp]:
  "item_id (toStudyItemRow i item) = item_id item"
  "study_set_id (toStudyItemRow i item) = i"
  by (simp_all add: toStudyItemRow_def)

lemma insertItems_run:
  assumes "faults db = []"
      and "i \<in> set (map row_id (study_sets db))"
      and "distinct (map item_id its)"
      and "set (map item_id its) \<inter> set (map item_id (study_items db)) = {}"
  shows "insertItems i its db =
           (Inr (), db\<lparr>study_items := study_items db @ map (toStudyItemRow i) its\<rparr>)"
  using assms
proof (induction its arbitrary: db)
  case Nil
  then show ?case by simp
next
  case (Cons item its)
  let ?db1 = "db\<lparr>study_items := study_items db @ [toStudyItemRow i item]\<rparr>"
  have new: "item_id item \<notin> set (map item_id (study_items db))"
    using Cons.prems(4) by auto
  have q: "query (insert_study_item (toStudyItemRow i item)) db = (Inr (), ?db1)"
    using Cons.prems(1,2) new by (simp add: no_faults_run insert_study_item_def)
  have "insertItems i its ?db1 =
          (Inr (), ?db1\<lparr>study_items := study_items ?db1 @ map (toStudyItemRow i) its\<rparr>)"
  proof (rule Cons.IH)
    show "faults ?db1 = []" using Cons.prems(1) by simp
    show "i \<in> set (map row_id (study_sets ?db1))" using Cons.prems(2) by simp
    show "distinct (map item_id its)" using Cons.prems(3) by simp
    show "set (map item_id its) \<inter> set (map item_id (study_items ?db1)) = {}"
      using Cons.prems(3,4) by auto
  qed
  then show ?case using q by simp
qed

lemma createStudySetDb_run:
  assumes nf: "faults db = []" and fr: "fresh_for i d db"
  shows "createStudySetDb i now d db =
           (Inr (newStudySet i now d),
            db\<lparr>study_sets := study_sets db @ [toStudySetRow i (newStudySet i now d)],
               study_items := study_items db @ map (toStudyItemRow i) (data_items d)\<rparr>)"
proof -
  let ?s = "newStudySet i now d"
  let ?db1 = "db\<lparr>study_sets := study_sets db @ [toStudySetRow i ?s]\<rparr>"
  have rid: "row_id (toStudySetRow i ?s) = i" by (simp add: toStudySetRow_def)
  have q: "query (insert_study_set (toStudySetRow i ?s)) db = (Inr (), ?db1)"
    using nf fr by (simp add: no_faults_run insert_study_set_def fresh_for_def rid)
  have its: "items ?s = data_items d" by (simp add: newStudySet_def)
  have "insertItems i (data_items d) ?db1 =
          (Inr (), ?db1\<lparr>study_items := study_items ?db1 @ map (toStudyItemRow i) (data_items d)\<rparr>)"
  proof (rule insertItems_run)
    show "faults ?db1 = []" using nf by simp
    show "i \<in> set (map row_id (study_sets ?db1))" by (simp add: rid)
    show "distinct (map item_id (data_items d))" using fr by (simp add: fresh_for_def)
    show "set (map item_id (data_items d)) \<inter> set (map item_id (study_items ?db1)) = {}"
      using fr by (simp add: fresh_for_def)
  qed
  then show ?thesis using q its by (simp add: createStudySetDb_def Let_def)
qed

lemma create_then_get_Db:
  assumes nf: "faults db = []" and fr: "fresh_for i d db" and ok: "db_ok db"
  shows "fst (getStudySetDb i (snd (createStudySetDb i now d db))) =
           Inr (Some (rowStudySet (toStudySetRow i (newStudySet i now d))
                        (row_order db (map (toStudyItemRow i) (data_items d)))))"
proof -
  let ?s = "newStudySet i now d"
  let ?db' = "db\<lparr>study_sets := study_sets db @ [toStudySetRow i ?s],
                 study_items := study_items db @ map (toStudyItemRow i) (data_items d)\<rparr>"
  have run: "snd (createStudySetDb i now d db) = ?db'"
    using createStudySetDb_run [OF nf fr] by simp
  have rid: "row_id (toStudySetRow i ?s) = i" by (simp add: toStudySetRow_def)
  have fresh: "i \<notin> set (map row_id (study_sets db))" using fr by (simp add: fresh_for_def)
  then have "filter (\<lambda>r. row_id r = i) (study_sets db) = []"
    by (auto simp: filter_empty_conv)
  then have sets: "filter (\<lambda>r. row_id r = i) (study_sets ?db') = toStudySetRow i ?s # []"
    by (simp add: rid)
  have "\<forall>r\<in>set (study_items db). study_set_id r \<noteq> i"
    using ok fresh by (auto simp: db_ok_def)
  then have "filter (\<lambda>r. study_set_id r = i) (study_items db) = []"
    by (simp add: filter_empty_conv)
  then have its: "filter (\<lambda>r. study_set_id r = i) (study_items ?db') =
                    map (toStudyItemRow i) (data_items d)"
    by (simp add: filter_map comp_def)
  have nf': "faults ?db' = []" using nf by simp
  show ?thesis unfolding run getStudySetDb_present [OF nf' sets] its by simp
qed

lemma rowItem_toStudyItemRow:
  "rowItem (toStudyItemRow i item) = item\<lparr>correctAnswer := orNull (correctAnswer item)\<rparr>"
  by (simp add: rowItem_def toStudyItemRow_def)

lemma orNull_id: "v \<noteq> Some [] \<Longrightarrow> orNull v = v"
  by (auto simp: orNull_def split: option.splits list.splits)

lemma rowStudySet_roundtrip:
  assumes "data_sourceName d \<noteq> Some []"
      and "\<forall>item\<in>set (data_items d). correctAnswer item \<noteq> Some []"
  shows "rowStudySet (toStudySetRow i (newStudySet i now d))
           (map (toStudyItemRow i) (data_items d)) = newStudySet i now d"
proof -
  have "map (\<lambda>item. rowItem (toStudyItemRow i item)) (data_items d) = data_items d"
    using assms(2) by (intro map_idI) (simp add: rowItem_toStudyItemRow orNull_id)
  then have "map rowItem (map (toStudyItemRow i) (data_items d)) = data_items d"
    by (simp add: comp_def)
  then show ?thesis using assms(1)
    by (simp add: rowStudySet_def toStudySetRow_def newStudySet_def orNull_id)
qed



subsection \<open>updateStudySetDb with new items\<close>

lemma updateStudySetDb_items:
  assumes nf: "faults db = []"
      and row: "filter (\<lambda>r. row_id r = i) (study_sets db) = row # others"
      and d: "distinct (map item_id its)"
      and fr: "set (map item_id its) \<inter>
               set (map item_id (filter (\<lambda>r. study_set_id r \<noteq> i) (study_items db))) = {}"
      and pi: "patch_items pt = Some its"
  shows "\<exists>s. fst (updateStudySetDb i now pt db) = Inr (Some s) \<and>
             items s = map rowItem (row_order db (map (toStudyItemRow i) its))"
proof -
  let ?e = "rowStudySet row (row_order db (filter (\<lambda>r. study_set_id r = i) (study_items db)))"
  have g: "getStudySetDb i db = (Inr (Some ?e), db)"
    using nf row by (rule getStudySetDb_present)
  define t where "t = (case patch_title pt of
                        Some t \<Rightarrow> if t = [] then title ?e else t
                      | None \<Rightarrow> title ?e)"
  define ds where "ds = (case patch_description pt of Some d \<Rightarrow> d | None \<Rightarrow> description ?e)"
  define sty where "sty = (case patch_sourceType pt of Some s \<Rightarrow> s | None \<Rightarrow> sourceType ?e)"
  define sn where "sn = (case patch_sourceName pt of Some n \<Rightarrow> Some n | None \<Rightarrow> sourceName ?e)"
  define f where "f = (\<lambda>r::StudySetRow. if row_id r = i
                         then r\<lparr>row_title := t, row_description := ds, updated_at := now,
                                 source_type := sty, source_name := sn\<rparr>
                         else r)"
  let ?db2 = "db\<lparr>study_sets := map f (study_sets db)\<rparr>"
  have q2: "query (update_study_set t ds now sty sn i) db =
              (Inr (length (filter (\<lambda>r. row_id r = i) (study_sets db))), ?db2)"
    using nf by (simp add: no_faults_run update_study_set_def f_def)
  let ?db3 = "?db2\<lparr>study_items := filter (\<lambda>r. study_set_id r \<noteq> i) (study_items db)\<rparr>"
  have q3: "query (delete_study_items i) ?db2 =
              (Inr (length (filter (\<lambda>r. study_set_id r = i) (study_items db))), ?db3)"
    using nf by (simp add: no_faults_run delete_study_items_def)
  have fid: "\<And>r. row_id (f r) = row_id r" by (simp add: f_def)
  have ids: "map row_id (map f (study_sets db)) = map row_id (study_sets db)"
    by (simp add: fid)
  have "row \<in> set (filter (\<lambda>r. row_id r = i) (study_sets db))" using row by simp
  then have mem: "i \<in> set (map row_id (study_sets db))" by auto
  let ?db4 = "?db3\<lparr>study_items := study_items ?db3 @ map (toStudyItemRow i) its\<rparr>"
  have q4: "insertItems i its ?db3 = (Inr (), ?db4)"
  proof (rule insertItems_run)
    show "faults ?db3 = []" using nf by simp
    show "i \<in> set (map row_id (study_sets ?db3))" using mem ids by simp
    show "distinct (map item_id its)" by (rule d)
    show "set (map item_id its) \<inter> set (map item_id (study_items ?db3)) = {}"
      using fr by simp
  qed
  have frow: "filter (\<lambda>r. row_id r = i) (study_sets ?db4) = f row # map f others"
  proof -
    have "filter (\<lambda>r. row_id r = i) (map f (study_sets db)) =
          map f (filter (\<lambda>r. row_id r = i) (study_sets db))"
      by (simp add: filter_map comp_def fid)
    then show ?thesis using row by simp
  qed
  have nf4: "faults ?db4 = []" using nf by simp
  have its4: "filter (\<lambda>r. study_set_id r = i) (study_items ?db4) = map (toStudyItemRow i) its"
    by (simp add: filter_map comp_def)
  have g4: "getStudySetDb i ?db4 =
              (Inr (Some (rowStudySet (f row) (row_order ?db4
                 (filter (\<lambda>r. study_set_id r = i) (study_items ?db4))))), ?db4)"
    using nf4 frow by (rule getStudySetDb_present)
  have run: "updateStudySetDb i now pt db = getStudySetDb i ?db4"
    using g q2 q3 q4 pi
    by (simp add: updateStudySetDb_def t_def [symmetric] ds_def [symmetric]
          sty_def [symmetric] sn_def [symmetric])
  show ?thesis unfolding run g4 its4 by (simp add: rowStudySet_def)
qed



subsection \<open>A storage call that throws\<close>

lemma createStudySetDb_fault:
  "query_fails db \<Longrightarrow>
     fst (createStudySetDb i now d db) = Inl ConnectionError \<and>
     failed_with ''Error creating study set:'' db (snd (createStudySetDb i now d db))"
  by (simp add: createStudySetDb_def Let_def query_fault consoleError_def failed_with_def)

lemma getStudySetDb_fault:
  "query_fails db \<Longrightarrow>
     fst (getStudySetDb i db) = Inr None \<and>
     failed_with ''Error getting study set:'' db (snd (getStudySetDb i db))"
  by (simp add: getStudySetDb_def query_fault consoleError_def failed_with_def)

lemma updateStudySetDb_fault:
  "query_fails db \<Longrightarrow>
     fst (updateStudySetDb i now d db) = Inr None \<and>
     failed_with ''Error getting study set:'' db (snd (updateStudySetDb i now d db))"
  by (simp add: updateStudySetDb_def getStudySetDb_def query_fault consoleError_def
        failed_with_def)

lemma deleteStudySetDb_fault:
  "query_fails db \<Longrightarrow>
     fst (deleteStudySetDb i db) = Inr False \<and>
     failed_with ''Error deleting study set:'' db (snd (deleteStudySetDb i db))"
  by (simp add: deleteStudySetDb_def query_fault consoleError_def failed_with_def)

lemma getAllStudySetsDb_fault:
  "query_fails db \<Longrightarrow>
     fst (getAllStudySetsDb db) = Inr [] \<and>
     failed_with ''Error getting all study sets:'' db (snd (getAllStudySetsDb db))"
  by (simp add: getAllStudySetsDb_def query_fault consoleError_def failed_with_def)

lemma saveUserProgressDb_fault:
  "query_fails db \<Longrightarrow>
     fst (saveUserProgressDb now p db) = Inr (p\<lparr>progress_updatedAt := now\<rparr>) \<and>
     failed_with ''Error saving user progress:'' db (snd (saveUserProgressDb now p db))"
  by (simp add: saveUserProgressDb_def Let_def query_fault consoleError_def failed_with_def)

lemma getUserProgressDb_fault:
  "query_fails db \<Longrightarrow>
     fst (getUserProgressDb sid m db) = Inr None \<and>
     failed_with ''Error getting user progress:'' db (snd (getUserProgressDb sid m db))"
  by (simp add: getUserProgressDb_def query_fault consoleError_def failed_with_def)

subsection \<open>Operations that never throw\<close>

lemma deleteStudySetDb_never_throws: "\<exists>r. fst (deleteStudySetDb i db) = Inr r"
  by (auto simp: deleteStudySetDb_def split: prod.splits sum.splits)

lemma saveUserProgressDb_never_throws:
  "fst (saveUserProgressDb now p db) = Inr (p\<lparr>progress_updatedAt := now\<rparr>)"
  by (auto simp: saveUserProgressDb_def Let_def split: prod.splits sum.splits)

lemma getUserProgressDb_never_throws: "\<exists>r. fst (getUserProgressDb sid m db) = Inr r"
  by (auto simp: getUserProgressDb_def split: prod.splits sum.splits)

lemma getAllStudySetsDb_never_throws: "\<exists>r. fst (getAllStudySetsDb db) = Inr r"
  by (auto simp: getAllStudySetsDb_def split: prod.splits sum.splits)

lemma updateStudySetDb_never_throws: "\<exists>r. fst (updateStudySetDb i now d db) = Inr r"
proof -
  have g: "\<And>db. \<exists>r. fst (getStudySetDb i db) = Inr r" by (rule getStudySetDb_never_throws)
  show ?thesis
    using g
    by (auto simp: updateStudySetDb_def split: prod.splits sum.splits option.splits)
qed



subsection \<open>How an operation ends: at most one call throws, and it is logged once\<close>

lemma pure_statements [simp]:
  "pure_stmt (insert_study_set row)"
  "pure_stmt (insert_study_item irow)"
  "pure_stmt (select_study_set i)"
  "pure_stmt (select_study_items i)"
  "pure_stmt (update_study_set t ds now sty sn i)"
  "pure_stmt (delete_study_items i)"
  "pure_stmt (delete_study_set i)"
  "pure_stmt select_all_study_sets"
  "pure_stmt (update_progress p)"
  "pure_stmt (insert_progress p)"
  "pure_stmt (select_progress sid m)"
  by (auto simp: pure_stmt_def insert_study_set_def insert_study_item_def select_study_set_def
        select_study_items_def update_study_set_def delete_study_items_def
        delete_study_set_def select_all_study_sets_def update_progress_def
        insert_progress_def select_progress_def split: if_splits)

lemma query_uncaught:
  assumes "pure_stmt stmt"
  shows "uncaught db (query stmt db)"
proof (cases "query_fails db")
  case True
  then show ?thesis by (simp add: query_fault uncaught_def)
next
  case False
  let ?d = "db\<lparr>faults := tl (faults db)\<rparr>"
  show ?thesis
  proof (cases "stmt ?d")
    case (Inl e)
    then show ?thesis using False by (simp add: query_run uncaught_def)
  next
    case (Inr p)
    obtain r d' where p: "p = (r, d')" by (cases p)
    have "thrown d' = thrown ?d \<and> console d' = console ?d"
      using assms Inr p by (simp add: pure_stmt_def)
    then show ?thesis using False Inr p by (simp add: query_run uncaught_def ran_clean_def)
  qed
qed

lemma uncaught_cases:
  assumes "uncaught db (r, db')"
  obtains (ok) v where "r = Inr v" "thrown db' = thrown db" "console db' = console db"
        | (threw) e where "r = Inl e" "thrown db' = thrown db + 1" "console db' = console db"
  using assms by (cases r) (auto simp: uncaught_def ran_clean_def)

lemma query_cases:
  assumes "pure_stmt stmt"
  obtains (ok) v db' where "query stmt db = (Inr v, db')" "thrown db' = thrown db"
                           "console db' = console db"
        | (threw) e db' where "query stmt db = (Inl e, db')" "thrown db' = thrown db + 1"
                              "console db' = console db"
proof -
  obtain r db' where q: "query stmt db = (r, db')" by (cases "query stmt db")
  have "uncaught db (r, db')" using query_uncaught [OF assms, of db] q by simp
  then show ?thesis using q ok threw by (cases rule: uncaught_cases) auto
qed

lemma insertItems_uncaught: "uncaught db (insertItems i its db)"
proof (induction its arbitrary: db)
  case Nil
  then show ?case by (simp add: uncaught_def ran_clean_def)
next
  case (Cons item its)
  have ps: "pure_stmt (insert_study_item (toStudyItemRow i item))" by simp
  from ps show ?case
  proof (cases rule: query_cases [where db = db])
    case (ok v db')
    have "uncaught db' (insertItems i its db')" by (rule Cons.IH)
    then show ?thesis using ok
      by (cases "insertItems i its db'")
         (auto simp: uncaught_def ran_clean_def split: sum.splits)
  next
    case (threw e db')
    then show ?thesis by (simp add: uncaught_def)
  qed
qed

lemma selectAllItems_uncaught: "uncaught db (selectAllItems rows db)"
proof (induction rows arbitrary: db)
  case Nil
  then show ?case by (simp add: uncaught_def ran_clean_def)
next
  case (Cons row rows)
  have ps: "pure_stmt (select_study_items (row_id row))" by simp
  from ps show ?case
  proof (cases rule: query_cases [where db = db])
    case (ok v db')
    have "uncaught db' (selectAllItems rows db')" by (rule Cons.IH)
    then show ?thesis using ok
      by (cases "selectAllItems rows db'")
         (auto simp: uncaught_def ran_clean_def split: sum.splits)
  next
    case (threw e db')
    then show ?thesis by (simp add: uncaught_def)
  qed
qed

lemma getStudySetDb_handled: "handled db (getStudySetDb i db) None"
proof -
  have ps: "pure_stmt (select_study_set i)" by simp
  from ps show ?thesis
  proof (cases rule: query_cases [where db = db])
  case (ok rows db1)
  have ps2: "pure_stmt (select_study_items i)" by simp
  from ps2 show ?thesis
  proof (cases rule: query_cases [where db = db1])
    case ok2: (ok irows db2)
    show ?thesis using ok ok2
      by (simp add: getStudySetDb_def handled_def ran_clean_def)
  next
    case (threw e db2)
    then show ?thesis using ok
      by (simp add: getStudySetDb_def handled_def ran_clean_def failed_once_def)
  qed
next
  case (threw e db1)
  then show ?thesis
    by (simp add: getStudySetDb_def handled_def failed_once_def)
  qed
qed

lemma deleteStudySetDb_handled: "handled db (deleteStudySetDb i db) False"
proof -
  have ps: "pure_stmt (delete_study_set i)" by simp
  from ps show ?thesis
  proof (cases rule: query_cases [where db = db])
  case (ok n db1)
  then show ?thesis by (auto simp: deleteStudySetDb_def handled_def ran_clean_def)
next
  case (threw e db1)
  then show ?thesis by (auto simp: deleteStudySetDb_def handled_def failed_once_def)
  qed
qed

lemma getUserProgressDb_handled: "handled db (getUserProgressDb sid m db) None"
proof -
  have ps: "pure_stmt (select_progress sid m)" by simp
  from ps show ?thesis
  proof (cases rule: query_cases [where db = db])
  case (ok rows db1)
  then show ?thesis by (simp add: getUserProgressDb_def handled_def ran_clean_def)
next
  case (threw e db1)
  then show ?thesis by (simp add: getUserProgressDb_def handled_def failed_once_def)
  qed
qed

lemma saveUserProgressDb_handled:
  "handled db (saveUserProgressDb now p db) (p\<lparr>progress_updatedAt := now\<rparr>)"
proof -
  have ps: "pure_stmt (update_progress (p\<lparr>progress_updatedAt := now\<rparr>))" by simp
  from ps show ?thesis
  proof (cases rule: query_cases [where db = db])
  case (ok n db1)
  have ps2: "pure_stmt (insert_progress (p\<lparr>progress_updatedAt := now\<rparr>))" by simp
  from ps2 show ?thesis
  proof (cases rule: query_cases [where db = db1])
    case ok2: (ok u db2)
    show ?thesis using ok ok2
      by (simp add: saveUserProgressDb_def Let_def handled_def ran_clean_def)
  next
    case (threw e db2)
    then show ?thesis using ok
      by (simp add: saveUserProgressDb_def Let_def handled_def ran_clean_def failed_once_def)
  qed
next
  case (threw e db1)
  then show ?thesis
    by (simp add: saveUserProgressDb_def Let_def handled_def failed_once_def)
  qed
qed

lemma getAllStudySetsDb_handled: "handled db (getAllStudySetsDb db) []"
proof -
  have ps: "pure_stmt (select_all_study_sets)" by simp
  from ps show ?thesis
  proof (cases rule: query_cases [where db = db])
  case (ok rows db1)
  obtain r db2 where s: "selectAllItems rows db1 = (r, db2)"
    by (cases "selectAllItems rows db1")
  have "uncaught db1 (r, db2)" using selectAllItems_uncaught [of db1 rows] s by simp
  then show ?thesis
  proof (cases rule: uncaught_cases)
    case ok2: (ok v)
    then show ?thesis using ok s
      by (simp add: getAllStudySetsDb_def handled_def ran_clean_def)
  next
    case (threw e)
    then show ?thesis using ok s
      by (simp add: getAllStudySetsDb_def handled_def ran_clean_def failed_once_def)
  qed
next
  case (threw e db1)
  then show ?thesis
    by (simp add: getAllStudySetsDb_def handled_def failed_once_def)
  qed
qed

lemma createStudySetDb_rethrown: "rethrown db (createStudySetDb i now d db)"
proof -
  have ps: "pure_stmt (insert_study_set (toStudySetRow i (newStudySet i now d)))" by simp
  from ps show ?thesis
  proof (cases rule: query_cases [where db = db])
  case (ok u db1)
  obtain r db2 where s: "insertItems i (items (newStudySet i now d)) db1 = (r, db2)"
    by (cases "insertItems i (items (newStudySet i now d)) db1")
  have "uncaught db1 (r, db2)"
    using insertItems_uncaught [of db1 i "items (newStudySet i now d)"] s by simp
  then show ?thesis
  proof (cases rule: uncaught_cases)
    case ok2: (ok v)
    then show ?thesis using ok s
      by (simp add: createStudySetDb_def Let_def rethrown_def ran_clean_def)
  next
    case (threw e)
    then show ?thesis using ok s
      by (simp add: createStudySetDb_def Let_def rethrown_def failed_once_def)
  qed
next
  case (threw e db1)
  then show ?thesis
    by (simp add: createStudySetDb_def Let_def rethrown_def failed_once_def)
  qed
qed



lemma handled_cases:
  assumes "handled db (r, db') d"
  obtains (ok) v where "r = Inr v" "thrown db' = thrown db" "console db' = console db"
        | (failed) "r = Inr d" "thrown db' = thrown db + 1"
                   "length (console db') = length (console db) + 1"
  using assms by (auto simp: handled_def ran_clean_def failed_once_def)

lemma handled_trans:
  assumes "thrown db1 = thrown db" "console db1 = console db" "handled db1 out d"
  shows "handled db out d"
  using assms by (auto simp: handled_def ran_clean_def failed_once_def)

lemma handled_failed:
  assumes "thrown db1 = thrown db + 1" "console db1 = console db"
  shows "handled db (Inr d, consoleError msg db1) d"
  using assms by (simp add: handled_def failed_once_def)

lemma updateStudySetDb_handled: "handled db (updateStudySetDb i now data db) None"
proof -
  obtain r1 db1 where g: "getStudySetDb i db = (r1, db1)"
    by (cases "getStudySetDb i db")
  have "handled db (r1, db1) None" using getStudySetDb_handled [of db i] g by simp
  then show ?thesis
  proof (cases rule: handled_cases)
    case failed
    then show ?thesis using g
      by (simp add: updateStudySetDb_def handled_def failed_once_def)
  next
    case (ok v)
    show ?thesis
    proof (cases v)
      case None
      then show ?thesis using ok g
        by (simp add: updateStudySetDb_def handled_def ran_clean_def)
    next
      case (Some ex)
      define stmt where "stmt = update_study_set
                     (case patch_title data of
                        Some t \<Rightarrow> if t = [] then title ex else t
                      | None \<Rightarrow> title ex)
                     (case patch_description data of
                        Some d \<Rightarrow> d
                      | None \<Rightarrow> description ex)
                     now
                     (case patch_sourceType data of
                        Some s \<Rightarrow> s
                      | None \<Rightarrow> sourceType ex)
                     (case patch_sourceName data of
                        Some n \<Rightarrow> Some n
                      | None \<Rightarrow> sourceName ex)
                     i"
      have u: "updateStudySetDb i now data db =
           (case query stmt db1 of
             (Inl e, db2) \<Rightarrow> (Inr None, consoleError ''Error updating study set:'' db2)
           | (Inr _, db2) \<Rightarrow>
               (case patch_items data of
                  None \<Rightarrow> getStudySetDb i db2
                | Some newItems \<Rightarrow>
                    (case query (delete_study_items i) db2 of
                       (Inl e, db3) \<Rightarrow>
                         (Inr None, consoleError ''Error updating study set:'' db3)
                     | (Inr _, db3) \<Rightarrow>
                         (case insertItems i newItems db3 of
                            (Inl e, db4) \<Rightarrow>
                              (Inr None, consoleError ''Error updating study set:'' db4)
                          | (Inr _, db4) \<Rightarrow> getStudySetDb i db4))))"
        using g ok Some unfolding updateStudySetDb_def stmt_def by simp
      have ps: "pure_stmt stmt" unfolding stmt_def by simp
      from ps show ?thesis
      proof (cases rule: query_cases [where db = db1])
        case (threw e db2)
        have "handled db (Inr None, consoleError ''Error updating study set:'' db2) None"
          by (rule handled_failed) (simp_all add: threw ok)
        then show ?thesis using u threw by simp
      next
        case q1: (ok n db2)
        have c2: "thrown db2 = thrown db" "console db2 = console db"
          using q1 ok by simp_all
        show ?thesis
        proof (cases "patch_items data")
          case None
          have "handled db (getStudySetDb i db2) None"
            by (rule handled_trans [OF c2 getStudySetDb_handled])
          then show ?thesis using u q1 None by simp
        next
          case its: (Some newItems)
          have ps2: "pure_stmt (delete_study_items i)" by simp
          from ps2 show ?thesis
          proof (cases rule: query_cases [where db = db2])
            case (threw e db3)
            have "handled db (Inr None, consoleError ''Error updating study set:'' db3) None"
              by (rule handled_failed) (simp_all add: threw c2)
            then show ?thesis using u q1 its threw by simp
          next
            case q2: (ok m db3)
            have c3: "thrown db3 = thrown db" "console db3 = console db"
              using q2 c2 by simp_all
            obtain r4 db4 where ins: "insertItems i newItems db3 = (r4, db4)"
              by (cases "insertItems i newItems db3")
            have "uncaught db3 (r4, db4)" using insertItems_uncaught [of db3 i newItems] ins by simp
            then show ?thesis
            proof (cases rule: uncaught_cases)
              case (threw e)
              have "handled db (Inr None, consoleError ''Error updating study set:'' db4) None"
                by (rule handled_failed) (simp_all add: threw c3)
              then show ?thesis using u q1 its q2 ins threw by simp
            next
              case q4: (ok w)
              have c4: "thrown db4 = thrown db" "console db4 = console db"
                using q4 c3 by simp_all
              have "handled db (getStudySetDb i db4) None"
                by (rule handled_trans [OF c4 getStudySetDb_handled])
              then show ?thesis using u q1 its q2 ins q4 by simp
            qed
          qed
        qed
      qed
    qed
  qed
qed



section \<open>The database backend: the schema's constraints are an invariant\<close>

text \<open>
  Every operation keeps the primary keys, the uniqueness of \<^verbatim>\<open>(study_set_id, mode)\<close> and
  the foreign keys, whichever calls of \<^verbatim>\<open>query\<close> fail and whatever it leaves half done.
\<close>

lemma db_ok_env [simp]:
  "db_ok (db\<lparr>faults := fs\<rparr>) = db_ok db"
  "db_ok (db\<lparr>console := c\<rparr>) = db_ok db"
  "db_ok (db\<lparr>thrown := n\<rparr>) = db_ok db"
  "db_ok (consoleError msg db) = db_ok db"
  by (simp_all add: db_ok_def consoleError_def)

lemma db_ok_query:
  assumes step: "\<And>d r d'. db_ok d \<Longrightarrow> stmt d = Inr (r, d') \<Longrightarrow> db_ok d'"
      and ok: "db_ok db"
  shows "db_ok (snd (query stmt db))"
proof (cases "query_fails db")
  case True
  then show ?thesis using ok by (simp add: query_fault)
next
  case False
  let ?d = "db\<lparr>faults := tl (faults db)\<rparr>"
  have okd: "db_ok ?d" using ok by simp
  show ?thesis
  proof (cases "stmt ?d")
    case (Inl e)
    then show ?thesis using False okd by (simp add: query_run)
  next
    case (Inr p)
    obtain r d' where p: "p = (r, d')" by (cases p)
    have "db_ok d'" using step [OF okd] Inr p by simp
    then show ?thesis using False Inr p by (simp add: query_run)
  qed
qed

lemma insert_study_set_ok:
  "db_ok d \<Longrightarrow> insert_study_set row d = Inr (r, d') \<Longrightarrow> db_ok d'"
  by (auto simp: insert_study_set_def db_ok_def split: if_splits)

lemma insert_study_item_ok:
  "db_ok d \<Longrightarrow> insert_study_item row d = Inr (r, d') \<Longrightarrow> db_ok d'"
  by (auto simp: insert_study_item_def db_ok_def split: if_splits)

lemma select_ok:
  "db_ok d \<Longrightarrow> select_study_set i d = Inr (rs, d') \<Longrightarrow> db_ok d'"
  "db_ok d \<Longrightarrow> select_study_items i d = Inr (ri, d') \<Longrightarrow> db_ok d'"
  "db_ok d \<Longrightarrow> select_all_study_sets d = Inr (rs, d') \<Longrightarrow> db_ok d'"
  "db_ok d \<Longrightarrow> select_progress sid m d = Inr (rp, d') \<Longrightarrow> db_ok d'"
  by (auto simp: select_study_set_def select_study_items_def select_all_study_sets_def
        select_progress_def)

lemma update_study_set_ok:
  assumes "db_ok d" "update_study_set t ds now sty sn i d = Inr (r, d')"
  shows "db_ok d'"
proof -
  define f where "f = (\<lambda>r::StudySetRow. if row_id r = i
                         then r\<lparr>row_title := t, row_description := ds, updated_at := now,
                                 source_type := sty, source_name := sn\<rparr>
                         else r)"
  have ids: "map row_id (map f (study_sets d)) = map row_id (study_sets d)"
    by (simp add: f_def)
  have d': "d' = d\<lparr>study_sets := map f (study_sets d)\<rparr>"
    using assms(2) by (simp add: update_study_set_def f_def)
  have "db_ok (d\<lparr>study_sets := map f (study_sets d)\<rparr>)"
    using assms(1) unfolding db_ok_def by (simp add: ids del: map_map set_map)
  then show ?thesis using d' by simp
qed

lemma delete_study_items_ok:
  "db_ok d \<Longrightarrow> delete_study_items i d = Inr (r, d') \<Longrightarrow> db_ok d'"
  by (auto simp: delete_study_items_def db_ok_def distinct_map_filter)

lemma delete_study_set_ok:
  assumes "db_ok d" "delete_study_set i d = Inr (r, d')"
  shows "db_ok d'"
proof -
  have d': "d' = d\<lparr>study_sets := filter (\<lambda>r. row_id r \<noteq> i) (study_sets d),
                     study_items := filter (\<lambda>r. study_set_id r \<noteq> i) (study_items d),
                     user_progress := filter (\<lambda>r. studySetId r \<noteq> i) (user_progress d)\<rparr>"
    using assms(2) by (simp add: delete_study_set_def)
  have keep: "\<And>x. x \<noteq> i \<Longrightarrow> x \<in> set (map row_id (study_sets d)) \<Longrightarrow>
                x \<in> set (map row_id (filter (\<lambda>r. row_id r \<noteq> i) (study_sets d)))"
    by auto
  have a: "distinct (map row_id (filter (\<lambda>r. row_id r \<noteq> i) (study_sets d)))"
    and b: "distinct (map item_id (filter (\<lambda>r. study_set_id r \<noteq> i) (study_items d)))"
    and c: "distinct (map (\<lambda>r. (studySetId r, mode r))
                       (filter (\<lambda>r. studySetId r \<noteq> i) (user_progress d)))"
    using assms(1) by (simp_all add: db_ok_def distinct_map_filter)
  have e: "\<forall>r\<in>set (filter (\<lambda>r. study_set_id r \<noteq> i) (study_items d)).
             study_set_id r \<in> set (map row_id (filter (\<lambda>r. row_id r \<noteq> i) (study_sets d)))"
    using assms(1) keep by (simp add: db_ok_def)
  have f: "\<forall>r\<in>set (filter (\<lambda>r. studySetId r \<noteq> i) (user_progress d)).
             studySetId r \<in> set (map row_id (filter (\<lambda>r. row_id r \<noteq> i) (study_sets d)))"
    using assms(1) keep by (simp add: db_ok_def)
  show ?thesis unfolding d' db_ok_def using a b c e f by simp
qed

lemma update_progress_ok:
  assumes "db_ok d" "update_progress p d = Inr (r, d')"
  shows "db_ok d'"
proof -
  define upd where
    "upd = (\<lambda>r::UserProgress. if studySetId r = studySetId p \<and> mode r = mode p
                 then r\<lparr>progress_updatedAt := progress_updatedAt p,
                         itemsStudied := itemsStudied p,
                         correctAnswers := correctAnswers p,
                         incorrectAnswers := incorrectAnswers p,
                         completedSessions := completedSessions p\<rparr>
                 else r)"
  have keys: "map (\<lambda>r. (studySetId r, mode r)) (map upd (user_progress d)) =
              map (\<lambda>r. (studySetId r, mode r)) (user_progress d)"
    using update_rows_select(2) [of p] by (simp add: upd_def)
  have sids: "studySetId ` set (map upd (user_progress d)) = studySetId ` set (user_progress d)"
    using update_rows_select(3) [of p] by (simp add: upd_def)
  have d': "d' = d\<lparr>user_progress := map upd (user_progress d)\<rparr>"
    using assms(2) by (simp add: update_progress_def upd_def split: if_splits)
  have fk: "\<forall>r\<in>set (map upd (user_progress d)). studySetId r \<in> set (map row_id (study_sets d))"
    using assms(1) sids unfolding db_ok_def by (metis (no_types, lifting) image_iff)
  have "distinct (map (\<lambda>r. (studySetId r, mode r)) (map upd (user_progress d)))"
    unfolding keys using assms(1) by (simp add: db_ok_def)
  then have "db_ok (d\<lparr>user_progress := map upd (user_progress d)\<rparr>)"
    using assms(1) fk unfolding db_ok_def by (simp del: map_map set_map)
  then show ?thesis using d' by simp
qed

lemma insert_progress_ok:
  assumes "db_ok d" "insert_progress p d = Inr (r, d')"
  shows "db_ok d'"
proof -
  have new: "\<not> (\<exists>r\<in>set (user_progress d). studySetId r = studySetId p \<and> mode r = mode p)"
    and fk: "studySetId p \<in> set (map row_id (study_sets d))"
    and d': "d' = d\<lparr>user_progress := user_progress d @ [p]\<rparr>"
    using assms(2) by (simp_all add: insert_progress_def split: if_splits)
  have "(studySetId p, mode p) \<notin> set (map (\<lambda>r. (studySetId r, mode r)) (user_progress d))"
    using new by auto
  then show ?thesis unfolding d' db_ok_def using assms(1) fk by (simp add: db_ok_def)
qed

lemma db_ok_insertItems: "db_ok db \<Longrightarrow> db_ok (snd (insertItems i its db))"
proof (induction its arbitrary: db)
  case Nil
  then show ?case by simp
next
  case (Cons item its)
  let ?q = "query (insert_study_item (toStudyItemRow i item)) db"
  have ok1: "db_ok (snd ?q)"
    using insert_study_item_ok Cons.prems by (rule db_ok_query)
  show ?case
  proof (cases ?q)
    case (Pair r db1)
    then have "db_ok db1" using ok1 by simp
    then show ?thesis using Pair Cons.IH by (cases r) simp_all
  qed
qed

lemma db_ok_createStudySetDb: "db_ok db \<Longrightarrow> db_ok (snd (createStudySetDb i now d db))"
proof -
  assume ok: "db_ok db"
  let ?q = "query (insert_study_set (toStudySetRow i (newStudySet i now d))) db"
  have ok1: "db_ok (snd ?q)" using insert_study_set_ok ok by (rule db_ok_query)
  show ?thesis
  proof (cases ?q)
    case (Pair r db1)
    then have o: "db_ok db1" using ok1 by simp
    have "db_ok (snd (insertItems i (items (newStudySet i now d)) db1))"
      using o by (rule db_ok_insertItems)
    then show ?thesis using Pair o
      by (cases r; cases "insertItems i (items (newStudySet i now d)) db1")
         (auto simp: createStudySetDb_def Let_def split: sum.splits)
  qed
qed

lemma db_ok_getStudySetDb: "db_ok db \<Longrightarrow> db_ok (snd (getStudySetDb i db))"
proof -
  assume ok: "db_ok db"
  let ?q = "query (select_study_set i) db"
  have ok1: "db_ok (snd ?q)" using select_ok(1) ok by (rule db_ok_query)
  show ?thesis
  proof (cases ?q)
    case (Pair r db1)
    then have o: "db_ok db1" using ok1 by simp
    have "db_ok (snd (query (select_study_items i) db1))"
      using select_ok(2) o by (rule db_ok_query)
    then show ?thesis using Pair o
      by (cases r; cases "query (select_study_items i) db1")
         (auto simp: getStudySetDb_def split: sum.splits)
  qed
qed

lemma db_ok_deleteStudySetDb: "db_ok db \<Longrightarrow> db_ok (snd (deleteStudySetDb i db))"
proof -
  assume ok: "db_ok db"
  have "db_ok (snd (query (delete_study_set i) db))"
    using delete_study_set_ok ok by (rule db_ok_query)
  then show ?thesis
    by (cases "query (delete_study_set i) db")
       (auto simp: deleteStudySetDb_def split: sum.splits)
qed

lemma db_ok_saveUserProgressDb: "db_ok db \<Longrightarrow> db_ok (snd (saveUserProgressDb now p db))"
proof -
  assume ok: "db_ok db"
  let ?p = "p\<lparr>progress_updatedAt := now\<rparr>"
  let ?q = "query (update_progress ?p) db"
  have ok1: "db_ok (snd ?q)" using update_progress_ok ok by (rule db_ok_query)
  show ?thesis
  proof (cases ?q)
    case (Pair r db1)
    then have o: "db_ok db1" using ok1 by simp
    have "db_ok (snd (query (insert_progress ?p) db1))"
      using insert_progress_ok o by (rule db_ok_query)
    then show ?thesis using Pair o
      by (cases r; cases "query (insert_progress ?p) db1")
         (auto simp: saveUserProgressDb_def Let_def split: sum.splits)
  qed
qed

lemma db_ok_getUserProgressDb: "db_ok db \<Longrightarrow> db_ok (snd (getUserProgressDb sid m db))"
proof -
  assume ok: "db_ok db"
  have "db_ok (snd (query (select_progress sid m) db))"
    using select_ok(4) ok by (rule db_ok_query)
  then show ?thesis
    by (cases "query (select_progress sid m) db")
       (auto simp: getUserProgressDb_def split: sum.splits)
qed



lemma db_ok_updateStudySetDb: "db_ok db \<Longrightarrow> db_ok (snd (updateStudySetDb i now pt db))"
proof -
  assume ok: "db_ok db"
  obtain r0 db1 where g0: "getStudySetDb i db = (r0, db1)" by (cases "getStudySetDb i db")
  have ok1: "db_ok db1" using db_ok_getStudySetDb [OF ok, of i] g0 by simp
  show ?thesis
  proof (cases r0)
    case (Inl e)
    then show ?thesis using g0 ok1 by (simp add: updateStudySetDb_def)
  next
    case (Inr found)
    show ?thesis
    proof (cases found)
      case None
      then show ?thesis using g0 Inr ok1 by (simp add: updateStudySetDb_def)
    next
      case (Some e)
      define t where "t = (case patch_title pt of
                        Some t \<Rightarrow> if t = [] then title e else t | None \<Rightarrow> title e)"
      define ds where "ds = (case patch_description pt of Some d \<Rightarrow> d | None \<Rightarrow> description e)"
      define sty where "sty = (case patch_sourceType pt of Some s \<Rightarrow> s | None \<Rightarrow> sourceType e)"
      define sn where "sn = (case patch_sourceName pt of Some n \<Rightarrow> Some n | None \<Rightarrow> sourceName e)"
      obtain r2 db2 where q2: "query (update_study_set t ds now sty sn i) db1 = (r2, db2)"
        by (cases "query (update_study_set t ds now sty sn i) db1")
      have "db_ok (snd (query (update_study_set t ds now sty sn i) db1))"
        using update_study_set_ok ok1 by (rule db_ok_query)
      then have ok2: "db_ok db2" using q2 by simp
      have run: "updateStudySetDb i now pt db =
        (case r2 of
           Inl e \<Rightarrow> (Inr None, consoleError ''Error updating study set:'' db2)
         | Inr _ \<Rightarrow>
             (case patch_items pt of
                None \<Rightarrow> getStudySetDb i db2
              | Some newItems \<Rightarrow>
                  (case query (delete_study_items i) db2 of
                     (Inl e, db3) \<Rightarrow> (Inr None, consoleError ''Error updating study set:'' db3)
                   | (Inr _, db3) \<Rightarrow>
                       (case insertItems i newItems db3 of
                          (Inl e, db4) \<Rightarrow>
                            (Inr None, consoleError ''Error updating study set:'' db4)
                        | (Inr _, db4) \<Rightarrow> getStudySetDb i db4))))"
        using g0 Inr Some q2
        by (simp add: updateStudySetDb_def t_def [symmetric] ds_def [symmetric]
              sty_def [symmetric] sn_def [symmetric])
      show ?thesis
      proof (cases r2)
        case (Inl e2)
        then show ?thesis unfolding run using ok2 by simp
      next
        case r2: (Inr n)
        show ?thesis
        proof (cases "patch_items pt")
          case None
          then show ?thesis unfolding run using r2 db_ok_getStudySetDb [OF ok2, of i] by simp
        next
          case (Some newItems)
          obtain r3 db3 where q3: "query (delete_study_items i) db2 = (r3, db3)"
            by (cases "query (delete_study_items i) db2")
          have "db_ok (snd (query (delete_study_items i) db2))"
            using delete_study_items_ok ok2 by (rule db_ok_query)
          then have ok3: "db_ok db3" using q3 by simp
          obtain r4 db4 where q4: "insertItems i newItems db3 = (r4, db4)"
            by (cases "insertItems i newItems db3")
          have ok4: "db_ok db4" using db_ok_insertItems [OF ok3, of i newItems] q4 by simp
          have ok5: "db_ok (snd (getStudySetDb i db4))" using ok4 by (rule db_ok_getStudySetDb)
          show ?thesis unfolding run using r2 Some q3 q4 ok3 ok4 ok5
            by (cases r3; cases r4) simp_all
        qed
      qed
    qed
  qed
qed

lemma db_ok_selectAllItems: "db_ok db \<Longrightarrow> db_ok (snd (selectAllItems rows db))"
proof (induction rows arbitrary: db)
  case Nil
  then show ?case by simp
next
  case (Cons row rows)
  let ?q = "query (select_study_items (row_id row)) db"
  have ok1: "db_ok (snd ?q)" using select_ok(2) Cons.prems by (rule db_ok_query)
  show ?case
  proof (cases ?q)
    case (Pair r db1)
    then have o: "db_ok db1" using ok1 by simp
    have "db_ok (snd (selectAllItems rows db1))" using o by (rule Cons.IH)
    then show ?thesis using Pair o
      by (cases r; cases "selectAllItems rows db1") (auto split: sum.splits)
  qed
qed

lemma db_ok_getAllStudySetsDb: "db_ok db \<Longrightarrow> db_ok (snd (getAllStudySetsDb db))"
proof -
  assume ok: "db_ok db"
  let ?q = "query select_all_study_sets db"
  have ok1: "db_ok (snd ?q)" using select_ok(3) ok by (rule db_ok_query)
  show ?thesis
  proof (cases ?q)
    case (Pair r db1)
    then have o: "db_ok db1" using ok1 by simp
    have a: "db_ok d'" if "selectAllItems rows db1 = (x, d')" for rows x d'
      using db_ok_selectAllItems [OF o, of rows] that by simp
    show ?thesis using Pair o
      by (cases r) (auto simp: getAllStudySetsDb_def split: sum.splits prod.splits dest: a)
  qed
qed



section \<open>The sample states\<close>

lemma sampleLocalDb_eq:
  "sampleLocalDb =
     \<lparr> studySets = [(''s1'', newStudySet ''s1'' 10 (sampleData None))],
       studySetIds = [''s1''], progress = [],
       localStorage = Some [(studySetKey ''s1'', JStudySet (newStudySet ''s1'' 10 (sampleData None))),
                            (''study-sets:all'', JIds [''s1''])],
       quota = [] \<rparr>"
  by (simp add: sampleLocalDb_def createStudySet_def emptyLocalDb_def Let_def isClient_def
        setItem_def pushNew_def studySetKey_def)

lemma wf_sampleLocalDb: "wf_local sampleLocalDb"
  by (simp add: sampleLocalDb_eq wf_local_def storage_keyed_def keyed_by_id_def startsWith_def)

lemma quota_sampleLocalDb: "quota sampleLocalDb = []"
  by (simp add: sampleLocalDb_eq)

lemma wf_sampleLocalDb2: "wf_local sampleLocalDb2"
  unfolding sampleLocalDb2_def
  by (intro wf_local_saveUserProgress wf_local_createStudySet wf_sampleLocalDb)

lemma sampleDatabase_eq:
  "sampleDatabase fs ord =
     \<lparr> study_sets = [toStudySetRow ''s1'' (newStudySet ''s1'' 10 (sampleData None))],
       study_items = map (toStudyItemRow ''s1'') (data_items (sampleData None)),
       user_progress = [], faults = fs, row_order = ord, console = [], thrown = 0 \<rparr>"
proof -
  have nf: "faults (emptyDatabase [] ord) = []" by (simp add: emptyDatabase_def)
  have fr: "fresh_for ''s1'' (sampleData None) (emptyDatabase [] ord)"
    by (simp add: fresh_for_def emptyDatabase_def sampleData_def sampleItem_def)
  show ?thesis
    unfolding sampleDatabase_def createStudySetDb_run [OF nf fr]
    by (simp add: emptyDatabase_def)
qed

lemma db_ok_sampleDatabase: "db_ok (sampleDatabase fs ord)"
  by (simp add: sampleDatabase_eq db_ok_def toStudySetRow_def sampleData_def sampleItem_def)

lemma fresh_sample: "fresh_for ''s1'' (sampleData src) (emptyDatabase fs ord)"
  by (simp add: fresh_for_def emptyDatabase_def sampleData_def sampleItem_def)

lemma db_ok_empty: "db_ok (emptyDatabase fs ord)"
  by (simp add: db_ok_def emptyDatabase_def)



section \<open>Properties of the persistence backends\<close>

subsection \<open>Progress records\<close>

text \<open>
  Claim C2, as amended. Two calls of \<^verbatim>\<open>saveUserProgress\<close> with the same study set id and
  mode, the second with the counters of \<open>p2\<close> at time \<open>t2\<close>; then
  \<^verbatim>\<open>getUserProgress\<close> for that pair returns exactly the second record (its counters,
  not a sum, and \<open>updatedAt = t2\<close>), and a store with at most one record per pair
  still has at most one. In the database backend this needs that no call of \<^verbatim>\<open>query\<close>
  fails, that the counters fit the \<^verbatim>\<open>INTEGER\<close> columns and that the study set exists
  (\<^verbatim>\<open>user_progress.study_set_id\<close> references \<^verbatim>\<open>study_sets\<close>); in the fallback backend, that
  no \<^verbatim>\<open>localStorage.setItem\<close> fails. The uniqueness of the pair holds with no condition.
\<close>

theorem saveUserProgress_last_write_wins:
  assumes same: "studySetId p1 = studySetId p2" "mode p1 = mode p2"
  shows "(faults db = [] \<and> counters_int4 p1 \<and> counters_int4 p2 \<and>
          studySetId p2 \<in> set (map row_id (study_sets db)) \<longrightarrow>
            fst (getUserProgressDb (studySetId p2) (mode p2)
                   (snd (saveUserProgressDb t2 p2 (snd (saveUserProgressDb t1 p1 db))))) =
              Inr (Some (p2\<lparr>progress_updatedAt := t2\<rparr>))) \<and>
         (distinct (map (\<lambda>r. (studySetId r, mode r)) (user_progress db)) \<longrightarrow>
            distinct (map (\<lambda>r. (studySetId r, mode r))
              (user_progress (snd (saveUserProgressDb t2 p2 (snd (saveUserProgressDb t1 p1 db))))))) \<and>
         (quota st = [] \<longrightarrow>
            fst (getUserProgress (studySetId p2) (mode p2)
                   (snd (saveUserProgress t2 p2 (snd (saveUserProgress t1 p1 st))))) =
              Some (p2\<lparr>progress_updatedAt := t2\<rparr>)) \<and>
         (distinct (map fst (progress st)) \<longrightarrow>
            distinct (map fst
              (progress (snd (saveUserProgress t2 p2 (snd (saveUserProgress t1 p1 st)))))))"
proof -
  have a: "faults db = [] \<and> counters_int4 p1 \<and> counters_int4 p2 \<and>
          studySetId p2 \<in> set (map row_id (study_sets db)) \<longrightarrow>
            fst (getUserProgressDb (studySetId p2) (mode p2)
                   (snd (saveUserProgressDb t2 p2 (snd (saveUserProgressDb t1 p1 db))))) =
              Inr (Some (p2\<lparr>progress_updatedAt := t2\<rparr>))"
    using save_save_get_Db [of db p2 p1 t2 t1] same(1) by blast
  have b: "distinct (map (\<lambda>r. (studySetId r, mode r)) (user_progress db)) \<longrightarrow>
            distinct (map (\<lambda>r. (studySetId r, mode r))
              (user_progress (snd (saveUserProgressDb t2 p2 (snd (saveUserProgressDb t1 p1 db))))))"
    by (simp add: saveUserProgressDb_unique)
  have c: "quota st = [] \<longrightarrow>
            fst (getUserProgress (studySetId p2) (mode p2)
                   (snd (saveUserProgress t2 p2 (snd (saveUserProgress t1 p1 st))))) =
              Some (p2\<lparr>progress_updatedAt := t2\<rparr>)"
    by (simp add: getUserProgress_result saveUserProgress_storedProgress saveUserProgress_quota)
  have d: "distinct (map fst (progress st)) \<longrightarrow>
            distinct (map fst
              (progress (snd (saveUserProgress t2 p2 (snd (saveUserProgress t1 p1 st))))))"
    by (simp add: saveUserProgress_distinct)
  show ?thesis using a b c d by (intro conjI)
qed



text \<open>
  The sample database and browser store, which hold the study set \<open>s1\<close>: counters
  (2, 1) saved at time 20, then (5, 4) at time 30.
\<close>

theorem saveUserProgress_last_write_wins_witness:
  "studySetId (sampleProgress 2 1) = studySetId (sampleProgress 5 4) \<and>
   mode (sampleProgress 2 1) = mode (sampleProgress 5 4) \<and>
   faults (sampleDatabase [] (\<lambda>rows. rows)) = [] \<and>
   counters_int4 (sampleProgress 2 1) \<and> counters_int4 (sampleProgress 5 4) \<and>
   studySetId (sampleProgress 5 4) \<in> set (map row_id (study_sets (sampleDatabase [] (\<lambda>rows. rows)))) \<and>
   fst (getUserProgressDb ''s1'' ''learn''
          (snd (saveUserProgressDb 30 (sampleProgress 5 4)
             (snd (saveUserProgressDb 20 (sampleProgress 2 1) (sampleDatabase [] (\<lambda>rows. rows))))))) =
     Inr (Some ((sampleProgress 5 4)\<lparr>progress_updatedAt := 30\<rparr>)) \<and>
   quota sampleLocalDb = [] \<and>
   fst (getUserProgress ''s1'' ''learn''
          (snd (saveUserProgress 30 (sampleProgress 5 4)
             (snd (saveUserProgress 20 (sampleProgress 2 1) sampleLocalDb))))) =
     Some ((sampleProgress 5 4)\<lparr>progress_updatedAt := 30\<rparr>)"
proof -
  let ?db = "sampleDatabase [] (\<lambda>rows. rows)"
  have s1: "studySetId (sampleProgress 2 1) = studySetId (sampleProgress 5 4)"
    and s2: "mode (sampleProgress 2 1) = mode (sampleProgress 5 4)"
    by (simp_all add: sampleProgress_def)
  have h1: "faults ?db = []" by (simp add: sampleDatabase_eq)
  have h2: "counters_int4 (sampleProgress 2 1)" "counters_int4 (sampleProgress 5 4)"
    by (simp_all add: sampleProgress_def counters_int4_def int4_def)
  have h3: "studySetId (sampleProgress 5 4) \<in> set (map row_id (study_sets ?db))"
    by (simp add: sampleDatabase_eq sampleProgress_def toStudySetRow_def)
  have h4: "quota sampleLocalDb = []" by (rule quota_sampleLocalDb)
  have k: "studySetId (sampleProgress 5 4) = ''s1''" "mode (sampleProgress 5 4) = ''learn''"
    by (simp_all add: sampleProgress_def)
  note t = saveUserProgress_last_write_wins [OF s1 s2, of ?db 30 20 sampleLocalDb]
  have a: "fst (getUserProgressDb ''s1'' ''learn''
          (snd (saveUserProgressDb 30 (sampleProgress 5 4)
             (snd (saveUserProgressDb 20 (sampleProgress 2 1) ?db))))) =
     Inr (Some ((sampleProgress 5 4)\<lparr>progress_updatedAt := 30\<rparr>))"
    using t h1 h2 h3 unfolding k by blast
  have b: "fst (getUserProgress ''s1'' ''learn''
          (snd (saveUserProgress 30 (sampleProgress 5 4)
             (snd (saveUserProgress 20 (sampleProgress 2 1) sampleLocalDb))))) =
     Some ((sampleProgress 5 4)\<lparr>progress_updatedAt := 30\<rparr>)"
    using t h4 unfolding k by blast
  show ?thesis using s1 s2 h1 h2 h3 h4 a b by (intro conjI)
qed



text \<open>
  Claim C2 as stated fails in the database backend: in a database without the study
  set \<open>s1\<close> and with no failing connection, both \<^verbatim>\<open>INSERT\<close>s violate the foreign key,
  \<^verbatim>\<open>saveUserProgressDb\<close> logs the error and returns the record, and
  \<^verbatim>\<open>getUserProgressDb\<close> finds nothing.
\<close>

theorem saveUserProgress_unknown_set_counterexample:
  "fst (getUserProgressDb ''s1'' ''learn''
          (snd (saveUserProgressDb 30 (sampleProgress 5 4)
             (snd (saveUserProgressDb 20 (sampleProgress 2 1)
                (emptyDatabase [] (\<lambda>rows. rows))))))) = Inr None"
proof -
  let ?db = "emptyDatabase [] (\<lambda>rows. rows)"
  let ?db1 = "snd (saveUserProgressDb 20 (sampleProgress 2 1) ?db)"
  let ?db2 = "snd (saveUserProgressDb 30 (sampleProgress 5 4) ?db1)"
  have c: "counters_int4 (sampleProgress 2 1)" "counters_int4 (sampleProgress 5 4)"
    by (simp_all add: sampleProgress_def counters_int4_def int4_def)
  have s1: "faults ?db1 = [] \<and> study_sets ?db1 = [] \<and> user_progress ?db1 = []"
    by (rule saveUserProgressDb_unknown_set) (simp_all add: emptyDatabase_def c)
  have s2: "faults ?db2 = [] \<and> study_sets ?db2 = [] \<and> user_progress ?db2 = []"
    using s1 by (intro saveUserProgressDb_unknown_set) (simp_all add: c)
  show ?thesis using s2
    by (simp add: getUserProgressDb_def no_faults_run select_progress_def)
qed



subsection \<open>Reading a study set\<close>










subsection \<open>Storage failures\<close>










subsection \<open>Round trip\<close>










subsection \<open>Deleting a study set\<close>







text \<open>
  Claim C10. In the fallback backend, on a well-formed store, \<^verbatim>\<open>deleteStudySet\<close> of one
  id changes the result of \<^verbatim>\<open>getStudySet\<close> for no other id and the result of
  \<^verbatim>\<open>getUserProgress\<close> for no study set id and mode.
\<close>

theorem deleteStudySet_frame:
  assumes "wf_local st"
  shows "(\<forall>j. j \<noteq> i \<longrightarrow>
            fst (getStudySet j (snd (deleteStudySet i st))) = fst (getStudySet j st)) \<and>
         (\<forall>sid m. fst (getUserProgress sid m (snd (deleteStudySet i st))) =
                   fst (getUserProgress sid m st))"
proof -
  have k: "storage_keyed st" using assms by (simp add: wf_local_def)
  have k': "storage_keyed (snd (deleteStudySet i st))" using k by (rule deleteStudySet_keyed)
  have sets: "\<forall>j. j \<noteq> i \<longrightarrow>
            fst (getStudySet j (snd (deleteStudySet i st))) = fst (getStudySet j st)"
    by (simp add: getStudySet_result [OF k] getStudySet_result [OF k']
          deleteStudySet_storedSet [OF k])
  have prog: "\<forall>sid m. fst (getUserProgress sid m (snd (deleteStudySet i st))) =
                   fst (getUserProgress sid m st)"
    by (simp add: getUserProgress_result deleteStudySet_storedProgress)
  show ?thesis using sets prog by blast
qed



text \<open>
  A browser store with the study sets \<open>s1\<close> and \<open>s2\<close> and a progress record for
  \<open>s1\<close>; \<open>s1\<close> is deleted.
\<close>

theorem deleteStudySet_frame_witness:
  "wf_local sampleLocalDb2 \<and>
   fst (getStudySet ''s2'' (snd (deleteStudySet ''s1'' sampleLocalDb2))) =
     fst (getStudySet ''s2'' sampleLocalDb2) \<and>
   fst (getUserProgress ''s1'' ''learn'' (snd (deleteStudySet ''s1'' sampleLocalDb2))) =
     fst (getUserProgress ''s1'' ''learn'' sampleLocalDb2)"
proof -
  note frame = deleteStudySet_frame [OF wf_sampleLocalDb2, of "''s1''"]
  have sets: "\<forall>j. j \<noteq> ''s1'' \<longrightarrow>
            fst (getStudySet j (snd (deleteStudySet ''s1'' sampleLocalDb2))) =
            fst (getStudySet j sampleLocalDb2)"
    using frame by (rule conjunct1)
  have prog: "\<forall>sid m. fst (getUserProgress sid m (snd (deleteStudySet ''s1'' sampleLocalDb2))) =
                   fst (getUserProgress sid m sampleLocalDb2)"
    using frame by (rule conjunct2)
  have ne: "''s2'' \<noteq> ''s1''" by simp
  have a: "fst (getStudySet ''s2'' (snd (deleteStudySet ''s1'' sampleLocalDb2))) =
           fst (getStudySet ''s2'' sampleLocalDb2)"
    using sets [rule_format, OF ne] .
  have b: "fst (getUserProgress ''s1'' ''learn'' (snd (deleteStudySet ''s1'' sampleLocalDb2))) =
           fst (getUserProgress ''s1'' ''learn'' sampleLocalDb2)"
    using prog [rule_format] .
  show ?thesis using wf_sampleLocalDb2 a b by (intro conjI)
qed



subsection \<open>Updating a study set that does not exist\<close>

text \<open>
  Claim C8. \<^verbatim>\<open>updateStudySet\<close> on an id that the store does not hold returns the absent
  value and does not throw, whatever the payload: in the database backend (no row of
  \<^verbatim>\<open>study_sets\<close> has the id) also when a call of \<^verbatim>\<open>query\<close> fails, and in the fallback
  backend (neither layer of a well-formed store holds a study set under the id), whose
  \<^verbatim>\<open>updateStudySet\<close> has no way of throwing.
\<close>

theorem updateStudySet_missing_id:
  "(i \<notin> set (map row_id (study_sets db)) \<longrightarrow> fst (updateStudySetDb i now d db) = Inr None) \<and>
   (wf_local st \<and> storedSet st i = None \<longrightarrow> fst (updateStudySet i now d st) = None)"
proof -
  have "wf_local st \<and> storedSet st i = None \<longrightarrow> fst (updateStudySet i now d st) = None"
    using updateStudySet_absent [of st i now d] by (simp add: wf_local_def)
  then show ?thesis using updateStudySetDb_absent [of i db now d] by blast
qed



text \<open>
  The sample database, whose second call of \<^verbatim>\<open>query\<close> would fail, and the sample browser
  store; neither holds \<open>s2\<close>.
\<close>

theorem updateStudySet_missing_id_witness:
  "''s2'' \<notin> set (map row_id (study_sets (sampleDatabase [False, True] (\<lambda>rows. rows)))) \<and>
   fst (updateStudySetDb ''s2'' 30 (samplePatch None) (sampleDatabase [False, True] (\<lambda>rows. rows)))
     = Inr None \<and>
   wf_local sampleLocalDb \<and> storedSet sampleLocalDb ''s2'' = None \<and>
   fst (updateStudySet ''s2'' 30 (samplePatch None) sampleLocalDb) = None"
proof -
  have h1: "''s2'' \<notin> set (map row_id (study_sets (sampleDatabase [False, True] (\<lambda>rows. rows))))"
    by (simp add: sampleDatabase_eq toStudySetRow_def)
  have h2: "wf_local sampleLocalDb" by (rule wf_sampleLocalDb)
  have h3: "storedSet sampleLocalDb ''s2'' = None"
    by (simp add: sampleLocalDb_eq storedSet_def)
  show ?thesis
    using updateStudySet_missing_id
            [of "''s2''" "sampleDatabase [False, True] (\<lambda>rows. rows)" 30 "samplePatch None"
                sampleLocalDb]
          h1 h2 h3
    by blast
qed

end
